theory Spec2Isabelle
  imports Complex_Main
begin

section \<open>Template renderer (bulkEmailSender.js, replaceTemplateVariables)\<close>

text \<open>
  JavaScript strings are modelled as \<open>string\<close>. A field value is a \<open>string option\<close>,
  \<open>None\<close> standing for \<open>null\<close> or \<open>undefined\<close>. A data object is the list of its
  \<open>Object.entries\<close>, in the order JavaScript enumerates them.

  The source builds, for every key, the regular expression \<open>\{\{key\}\}\<close> with the key
  pasted in unescaped. The embedding reads the key literally, which is what that regular
  expression does for a key free of regular-expression metacharacters; keys with such
  characters are outside what these definitions describe.
\<close>

type_synonym fields = "(string \<times> string option) list"

text \<open>\<open>value || ''\<close>: \<open>null\<close>, \<open>undefined\<close> and the empty string all give the empty string.\<close>

definition or_empty :: "string option \<Rightarrow> string" where
  "or_empty v = (case v of None \<Rightarrow> [] | Some s \<Rightarrow> s)"

text \<open>
  \<open>String.prototype.replace\<close> with a string as replacement expands the patterns
  \<open>$$\<close>, \<open>$&\<close>, \<open>$`\<close> and \<open>$'\<close> (ECMAScript GetSubstitution). The regular expression
  of a literal key has no capture group, so \<open>$1\<close> ... \<open>$99\<close> and \<open>$<\<close> stay as they are.
  Arguments: the matched text, the subject before the match, the subject after it, the
  replacement text.
\<close>

fun getSubstitution :: "string \<Rightarrow> string \<Rightarrow> string \<Rightarrow> string \<Rightarrow> string" where
  "getSubstitution m pre post [] = []"
| "getSubstitution m pre post [c] = [c]"
| "getSubstitution m pre post (c # d # r) =
     (if c = CHR ''$'' then
        (if d = CHR ''$'' then CHR ''$'' # getSubstitution m pre post r
         else if d = CHR ''&'' then m @ getSubstitution m pre post r
         else if d = CHR 0x60 then pre @ getSubstitution m pre post r
         else if d = CHR 0x27 then post @ getSubstitution m pre post r
         else c # getSubstitution m pre post (d # r))
      else c # getSubstitution m pre post (d # r))"

text \<open>
  The text matched by the regular expression of a key. The source builds the expression
  from the key as it is, with no escaping: the model is that of a key with no character
  special to regular expressions (letters, digits, \<open>_\<close>, spaces), for which the
  expression matches this text and nothing else. The rendered examples below have such
  keys; the properties of the dispatcher hold whatever the rendered text is.
\<close>

definition token :: "string \<Rightarrow> string" where
  "token key = ''{{'' @ key @ ''}}''"

text \<open>
  \<open>result.replace(regex, value || '')\<close> with the global flag: the matches are found from
  left to right in the subject, each search resuming behind the previous match; \<open>pre\<close> is
  the part of the subject already passed.
\<close>

fun replace_global :: "string \<Rightarrow> string \<Rightarrow> string \<Rightarrow> string \<Rightarrow> string" where
  "replace_global key repl pre [] = []"
| "replace_global key repl pre (c # cs) =
     (if take (length (token key)) (c # cs) = token key
      then getSubstitution (token key) pre (drop (length (token key)) (c # cs)) repl
           @ replace_global key repl (pre @ token key) (drop (length (token key) - 1) cs)
      else c # replace_global key repl (pre @ [c]) cs)"

text \<open>
  A match of \<open>/\{\{[^}]+\}\}/\<close> at the start of a string, as the number of characters
  matched. The greedy class takes the longest run of characters other than \<open>}\<close>; no
  shorter run can be followed by \<open>}}\<close>, so backtracking finds nothing else.
\<close>

definition match_placeholder :: "string \<Rightarrow> nat option" where
  "match_placeholder s =
     (case s of
        a # b # t \<Rightarrow>
          if a = CHR ''{'' \<and> b = CHR ''{'' then
            (let k = takeWhile (\<lambda>c. c \<noteq> CHR ''}'') t;
                 r = dropWhile (\<lambda>c. c \<noteq> CHR ''}'') t
             in if k \<noteq> [] \<and> take 2 r = ''}}'' then Some (length k + 4) else None)
          else None
      | _ \<Rightarrow> None)"

text \<open>\<open>result.replace(/\{\{[^}]+\}\}/g, '')\<close>.\<close>

fun remove_unreplaced :: "string \<Rightarrow> string" where
  "remove_unreplaced [] = []"
| "remove_unreplaced (c # cs) =
     (case match_placeholder (c # cs) of
        Some n \<Rightarrow> remove_unreplaced (drop (n - 1) cs)
      | None \<Rightarrow> c # remove_unreplaced cs)"

text \<open>
  \<open>replaceTemplateVariables(text, data)\<close>. A \<open>null\<close> or empty text gives the empty
  string; otherwise every entry of the data is substituted in turn, and what is left of
  the form \<open>{{...}}\<close> is deleted.
\<close>

definition replaceTemplateVariables :: "string option \<Rightarrow> fields \<Rightarrow> string" where
  "replaceTemplateVariables text data =
     (case text of
        None \<Rightarrow> []
      | Some t \<Rightarrow>
          if t = [] then []
          else remove_unreplaced
                 (fold (\<lambda>(key, v) result. replace_global key (or_empty v) [] result) data t))"


section \<open>Data model (database/init.sql)\<close>

text \<open>
  One record per table row, with the columns the dispatcher and the progress tracker
  read or write. The status columns carry CHECK constraints listing their values, so
  they are enumerations. Timestamps are milliseconds.
\<close>

type_synonym timestamp = nat

datatype campaign_status = Draft | Queued | Sending | Completed | Failed | Cancelled

datatype recipient_status = Pending | Sent | SendFailed

record campaign =
  c_id :: nat
  c_user_id :: nat
  c_subject :: string
  c_email_body :: string
  c_html_body :: "string option"
  recipient_count :: int
  sent_count :: int
  failed_count :: int
  c_status :: campaign_status
  started_at :: "timestamp option"
  completed_at :: "timestamp option"
  updated_at :: timestamp

record recipient =
  r_id :: nat
  r_campaign_id :: nat
  r_email :: string
  r_name :: "string option"
  custom_fields :: "fields option"
  r_status :: recipient_status
  sent_at :: "timestamp option"
  error_message :: "string option"

record email_log =
  l_user_id :: nat
  l_campaign_id :: nat
  l_recipient_id :: nat
  l_recipient_email :: string
  l_subject :: string
  l_status :: recipient_status
  l_message_id :: "string option"
  l_error_message :: "string option"
  l_sent_at :: timestamp

record smtp_config =
  s_user_id :: nat
  gmail_address :: string
  app_password_encrypted :: string
  from_name :: string

record mail =
  mail_to :: string
  mail_subject :: string
  mail_text :: string
  mail_html :: "string option"

text \<open>
  The state the program works on: the four tables, the clock read by \<open>NOW()\<close> and
  \<open>new Date()\<close>, and the messages handed to \<open>transporter.sendMail\<close> so far. Time
  passes in \<open>sleep\<close> only. Queries are modelled as succeeding; a failing database is
  outside the embedding.
\<close>

record world =
  campaigns :: "campaign list"
  campaign_recipients :: "recipient list"
  email_logs :: "email_log list"
  smtp_configs :: "smtp_config list"
  clock :: timestamp
  smtp_calls :: "mail list"

text \<open>
  The collaborators the program does not own: decryption of the stored password
  (\<open>None\<close> when it throws), \<open>transporter.verify()\<close> and \<open>transporter.sendMail()\<close>
  with the error codes the source distinguishes.
\<close>

record transporter =
  auth_user :: string
  auth_pass :: string
  default_from :: string

datatype verify_outcome =
  VerifyOk | EAUTH | ECONNECTION | ETIMEDOUT | Response534 | VerifyError string

datatype send_outcome =
  Accepted string | EENVELOPE | Response550 | SendError string

record env =
  decrypt :: "string \<Rightarrow> string option"
  verify :: "transporter \<Rightarrow> verify_outcome"
  sendMail :: "transporter \<Rightarrow> timestamp \<Rightarrow> mail \<Rightarrow> send_outcome"

section \<open>Outbound transport (utils/emailService.js)\<close>

definition createTransporterFromCredentials ::
  "string \<Rightarrow> string \<Rightarrow> string \<Rightarrow> string + transporter" where
  "createTransporterFromCredentials gmailAddress appPassword fromName =
     (if gmailAddress = [] \<or> appPassword = []
      then Inl ''Gmail address and app password are required''
      else Inr \<lparr>auth_user = gmailAddress, auth_pass = appPassword, default_from = fromName\<rparr>)"

definition createTransporter :: "env \<Rightarrow> nat \<Rightarrow> world \<Rightarrow> string + transporter" where
  "createTransporter e userId w =
     (case filter (\<lambda>s. s_user_id s = userId) (smtp_configs w) of
        [] \<Rightarrow> Inl ''SMTP configuration not found. Please configure your Gmail SMTP settings.''
      | config # _ \<Rightarrow>
          (case decrypt e (app_password_encrypted config) of
             None \<Rightarrow> Inl ''Failed to decrypt SMTP credentials. Please reconfigure your SMTP settings.''
           | Some appPassword \<Rightarrow>
               createTransporterFromCredentials (gmail_address config) appPassword
                 (from_name config)))"

definition verifyTransporter :: "env \<Rightarrow> transporter \<Rightarrow> string + unit" where
  "verifyTransporter e t =
     (case verify e t of
        VerifyOk \<Rightarrow> Inr ()
      | EAUTH \<Rightarrow> Inl ''Invalid Gmail credentials. Please check your email and app password.''
      | ECONNECTION \<Rightarrow>
          Inl ''Failed to connect to Gmail SMTP server. Please check your internet connection.''
      | ETIMEDOUT \<Rightarrow>
          Inl ''Failed to connect to Gmail SMTP server. Please check your internet connection.''
      | Response534 \<Rightarrow>
          Inl ''Gmail authentication failed. Make sure you are using an App Password, not your regular Gmail password.''
      | VerifyError msg \<Rightarrow> Inl (''SMTP verification failed: '' @ msg))"

text \<open>
  \<open>sendEmail\<close>: the two checks on the options, then the call of the transport, which
  is recorded in \<open>smtp_calls\<close> whatever its outcome.
\<close>

definition sendEmail ::
  "env \<Rightarrow> transporter \<Rightarrow> mail \<Rightarrow> world \<Rightarrow> (string + string) \<times> world" where
  "sendEmail e t m w =
     (if mail_to m = [] \<or> mail_subject m = []
      then (Inl ''Recipient (to) and subject are required'', w)
      else if mail_text m = [] \<and> (mail_html m = None \<or> mail_html m = Some [])
      then (Inl ''Email must have either text or html content'', w)
      else
        (case sendMail e t (clock w) m of
           Accepted messageId \<Rightarrow> Inr messageId
         | EENVELOPE \<Rightarrow> Inl ''Invalid recipient email address''
         | Response550 \<Rightarrow> Inl ''Recipient address rejected''
         | SendError msg \<Rightarrow> Inl (''Failed to send email: '' @ msg),
         w\<lparr>smtp_calls := smtp_calls w @ [m]\<rparr>))"

section \<open>Dispatcher (services/bulkEmailSender.js)\<close>

text \<open>
  \<open>updateCampaignStatus\<close>: one UPDATE of every row with the id; \<open>started_at\<close> and
  \<open>completed_at\<close> are written only when the argument is given.
\<close>

definition updateCampaignStatus ::
  "nat \<Rightarrow> campaign_status \<Rightarrow> timestamp option \<Rightarrow> timestamp option \<Rightarrow> world \<Rightarrow> world" where
  "updateCampaignStatus campaignId st startedAt completedAt w =
     w\<lparr>campaigns :=
         map (\<lambda>c. if c_id c = campaignId
                  then c\<lparr>c_status := st,
                         updated_at := clock w,
                         started_at := (case startedAt of None \<Rightarrow> started_at c | Some t \<Rightarrow> Some t),
                         completed_at :=
                           (case completedAt of None \<Rightarrow> completed_at c | Some t \<Rightarrow> Some t)\<rparr>
                  else c)
           (campaigns w)\<rparr>"

text \<open>\<open>logEmail\<close>: one INSERT into \<open>email_logs\<close>.\<close>

definition logEmail ::
  "nat \<Rightarrow> nat \<Rightarrow> nat \<Rightarrow> string \<Rightarrow> string \<Rightarrow> recipient_status \<Rightarrow> string option \<Rightarrow>
   string option \<Rightarrow> world \<Rightarrow> world" where
  "logEmail userId campaignId recipientId recipientEmail subj st messageId errorMessage w =
     w\<lparr>email_logs := email_logs w @
         [\<lparr>l_user_id = userId, l_campaign_id = campaignId, l_recipient_id = recipientId,
           l_recipient_email = recipientEmail, l_subject = subj, l_status = st,
           l_message_id = messageId, l_error_message = errorMessage,
           l_sent_at = clock w\<rparr>]\<rparr>"

definition sleep :: "nat \<Rightarrow> world \<Rightarrow> world" where
  "sleep ms w = w\<lparr>clock := clock w + ms\<rparr>"

text \<open>
  The four UPDATE statements of the send loop. None of them looks at the status the
  row has.
\<close>

definition mark_sent :: "nat \<Rightarrow> world \<Rightarrow> world" where
  "mark_sent recipientId w =
     w\<lparr>campaign_recipients :=
         map (\<lambda>r. if r_id r = recipientId
                  then r\<lparr>r_status := Sent, sent_at := Some (clock w)\<rparr> else r)
           (campaign_recipients w)\<rparr>"

definition mark_failed :: "nat \<Rightarrow> string \<Rightarrow> world \<Rightarrow> world" where
  "mark_failed recipientId msg w =
     w\<lparr>campaign_recipients :=
         map (\<lambda>r. if r_id r = recipientId
                  then r\<lparr>r_status := SendFailed, error_message := Some msg\<rparr> else r)
           (campaign_recipients w)\<rparr>"

definition increment_sent :: "nat \<Rightarrow> world \<Rightarrow> world" where
  "increment_sent campaignId w =
     w\<lparr>campaigns :=
         map (\<lambda>c. if c_id c = campaignId
                  then c\<lparr>sent_count := sent_count c + 1, updated_at := clock w\<rparr> else c)
           (campaigns w)\<rparr>"

definition increment_failed :: "nat \<Rightarrow> world \<Rightarrow> world" where
  "increment_failed campaignId w =
     w\<lparr>campaigns :=
         map (\<lambda>c. if c_id c = campaignId
                  then c\<lparr>failed_count := failed_count c + 1, updated_at := clock w\<rparr> else c)
           (campaigns w)\<rparr>"

text \<open>
  The object spread \<open>{name: ..., email: ..., ...customFields}\<close>: a key already there
  keeps its place and takes the new value, a new key goes to the end. (Keys that are
  array indices, which JavaScript enumerates before the others, are not told apart.)
\<close>

fun set_property :: "string \<Rightarrow> string option \<Rightarrow> fields \<Rightarrow> fields" where
  "set_property k v [] = [(k, v)]"
| "set_property k v ((k', v') # kvs) =
     (if k' = k then (k, v) # kvs else (k', v') # set_property k v kvs)"

definition spread :: "fields \<Rightarrow> fields \<Rightarrow> fields" where
  "spread obj src = fold (\<lambda>(k, v) acc. set_property k v acc) src obj"

text \<open>
  \<open>sendToRecipient\<close>, in two parts. First the message: the recipient data, the choice
  between the recipient's own subject and body and those of the campaign, and the
  rendering. The custom fields are stored as JSON, which has no \<open>undefined\<close>: a key is
  \<open>!== undefined\<close> exactly when it is present.
\<close>

definition recipient_mail :: "recipient \<Rightarrow> campaign \<Rightarrow> mail" where
  "recipient_mail recipient cmp =
     (let customFields = (case custom_fields recipient of None \<Rightarrow> [] | Some cf \<Rightarrow> cf);
          recipientData =
            spread [(''name'', Some (or_empty (r_name recipient))),
                    (''email'', Some (r_email recipient))] customFields;
          baseSubject =
            (case map_of customFields ''custom_subject'' of
               Some v \<Rightarrow> v | None \<Rightarrow> Some (c_subject cmp));
          baseBody =
            (case map_of customFields ''custom_body'' of
               Some v \<Rightarrow> v | None \<Rightarrow> Some (c_email_body cmp));
          subj = replaceTemplateVariables baseSubject recipientData;
          textBody = replaceTemplateVariables baseBody recipientData;
          htmlBody =
            (case c_html_body cmp of
               None \<Rightarrow> None
             | Some h \<Rightarrow> if h = [] then None
                         else Some (replaceTemplateVariables (Some h) recipientData))
      in \<lparr>mail_to = r_email recipient, mail_subject = subj,
          mail_text = textBody, mail_html = htmlBody\<rparr>)"

text \<open>
  Then the sending and the log entry of a message sent. The result is the message of
  the error thrown, or the message id.
\<close>

definition sendToRecipient ::
  "env \<Rightarrow> recipient \<Rightarrow> campaign \<Rightarrow> transporter \<Rightarrow> nat \<Rightarrow> world \<Rightarrow> (string + string) \<times> world" where
  "sendToRecipient e recipient cmp t userId w =
     (case sendEmail e t (recipient_mail recipient cmp) w of
        (Inl msg, w1) \<Rightarrow> (Inl msg, w1)
      | (Inr messageId, w1) \<Rightarrow>
          (Inr messageId,
           logEmail userId (c_id cmp) (r_id recipient) (r_email recipient)
             (mail_subject (recipient_mail recipient cmp)) Sent (Some messageId) None w1))"

text \<open>
  One pass through the body of the \<open>for\<close> loop: the \<open>try\<close> branch, or the \<open>catch\<close>
  branch with the message of the error, then the pause of one second. The state of the
  loop is the two local counters and the world.
\<close>

definition iteration ::
  "env \<Rightarrow> nat \<Rightarrow> nat \<Rightarrow> campaign \<Rightarrow> transporter \<Rightarrow> recipient \<Rightarrow> nat \<times> nat \<times> world \<Rightarrow>
   nat \<times> nat \<times> world" where
  "iteration e campaignId userId cmp t recipient st =
     (case st of (sentCount, failedCount, w) \<Rightarrow>
        (case sendToRecipient e recipient cmp t userId w of
           (Inr result, w1) \<Rightarrow>
             (sentCount + 1, failedCount,
              sleep 1000 (increment_sent campaignId (mark_sent (r_id recipient) w1)))
         | (Inl msg, w1) \<Rightarrow>
             (sentCount, failedCount + 1,
              sleep 1000
                (logEmail userId campaignId (r_id recipient) (r_email recipient)
                   (c_subject cmp) SendFailed None (Some msg)
                   (increment_failed campaignId (mark_failed (r_id recipient) msg w1))))))"

fun send_loop ::
  "env \<Rightarrow> nat \<Rightarrow> nat \<Rightarrow> campaign \<Rightarrow> transporter \<Rightarrow> recipient list \<Rightarrow> nat \<times> nat \<times> world \<Rightarrow>
   nat \<times> nat \<times> world" where
  "send_loop e campaignId userId cmp t [] st = st"
| "send_loop e campaignId userId cmp t (recipient # rest) st =
     send_loop e campaignId userId cmp t rest
       (iteration e campaignId userId cmp t recipient st)"

text \<open>
  The SELECT of the pending recipients of a campaign, \<open>ORDER BY id\<close>.
\<close>

definition pending_recipients :: "nat \<Rightarrow> world \<Rightarrow> recipient list" where
  "pending_recipients campaignId w =
     sort_key r_id
       (filter (\<lambda>r. r_campaign_id r = campaignId \<and> r_status r = Pending)
          (campaign_recipients w))"

text \<open>
  The inner \<open>try\<close> block: \<open>createTransporter\<close>, then \<open>verifyTransporter\<close>; the message
  of whatever either throws, or the transporter.
\<close>

definition connect_transport :: "env \<Rightarrow> nat \<Rightarrow> world \<Rightarrow> string + transporter" where
  "connect_transport e userId w =
     (case createTransporter e userId w of
        Inl msg \<Rightarrow> Inl msg
      | Inr t \<Rightarrow> (case verifyTransporter e t of Inl msg \<Rightarrow> Inl msg | Inr _ \<Rightarrow> Inr t))"

datatype error =
  CampaignNotFound
| CannotSendStatus campaign_status
| SmtpConnectionFailed string

text \<open>
  The \<open>try\<close> block of \<open>sendCampaign\<close>: the error thrown, or the counters returned,
  with the world as it is at that point.
\<close>

definition sendCampaign_try ::
  "env \<Rightarrow> nat \<Rightarrow> nat \<Rightarrow> world \<Rightarrow> (error + nat \<times> nat) \<times> world" where
  "sendCampaign_try e campaignId userId w =
     (case filter (\<lambda>c. c_id c = campaignId \<and> c_user_id c = userId) (campaigns w) of
        [] \<Rightarrow> (Inl CampaignNotFound, w)
      | cmp # _ \<Rightarrow>
          if c_status cmp \<noteq> Queued then (Inl (CannotSendStatus (c_status cmp)), w)
          else
            (let recipients = pending_recipients campaignId w in
             if recipients = []
             then (Inr (0, 0),
                   updateCampaignStatus campaignId Completed (Some (clock w)) None w)
             else
               (case connect_transport e userId w of
                  Inl msg \<Rightarrow>
                    (Inl (SmtpConnectionFailed msg),
                     updateCampaignStatus campaignId Failed None None w)
                | Inr t \<Rightarrow>
                    (case send_loop e campaignId userId cmp t recipients
                            (0, 0, updateCampaignStatus campaignId Sending (Some (clock w)) None w) of
                       (sentCount, failedCount, w1) \<Rightarrow>
                         (Inr (sentCount, failedCount),
                          updateCampaignStatus campaignId Completed None (Some (clock w1)) w1)))))"

text \<open>
  \<open>sendCampaign\<close>: whatever the \<open>try\<close> block throws, the \<open>catch\<close> sets the campaign
  to \<open>failed\<close> and throws it again.
\<close>

definition sendCampaign ::
  "env \<Rightarrow> nat \<Rightarrow> nat \<Rightarrow> world \<Rightarrow> (error + nat \<times> nat) \<times> world" where
  "sendCampaign e campaignId userId w =
     (case sendCampaign_try e campaignId userId w of
        (Inl err, w1) \<Rightarrow> (Inl err, updateCampaignStatus campaignId Failed None None w1)
      | (Inr res, w1) \<Rightarrow> (Inr res, w1))"

section \<open>Progress tracker (services/progressTracker.js, calculateProgress)\<close>

text \<open>
  JavaScript numbers are IEEE 754 doubles. A double is modelled by the rational number
  it stands for, and an arithmetic operation by the exact operation followed by the
  rounding to the nearest double, a tie going to the even significand. The rounding
  below is that of the normal range (magnitudes from \<open>2^-1022\<close> up to \<open>2^1024\<close>):
  infinities, NaN, the sign of zero and subnormal numbers are not modelled, and a
  property of the quotients is stated for counters in the range of the INTEGER columns
  only, where every intermediate value is zero or normal. Sums and differences of such
  counters are exact.
\<close>

fun bit_length :: "nat \<Rightarrow> nat" where
  "bit_length n = (if n = 0 then 0 else Suc (bit_length (n div 2)))"

declare bit_length.simps [simp del]

definition pow2 :: "int \<Rightarrow> rat" where
  "pow2 e = (if 0 \<le> e then 2 ^ nat e else 1 / 2 ^ nat (- e))"

text \<open>The exponent \<open>e\<close> of a positive number \<open>y\<close>: \<open>2^e \<le> y < 2^(e+1)\<close>.\<close>

definition binary_exponent :: "rat \<Rightarrow> int" where
  "binary_exponent y =
     (if 1 \<le> y then int (bit_length (nat \<lfloor>y\<rfloor>)) - 1
      else - int (bit_length (nat (\<lceil>1 / y\<rceil> - 1))))"

definition round_ties_even :: "rat \<Rightarrow> int" where
  "round_ties_even z =
     (let n = \<lfloor>z\<rfloor>; r = z - of_int n
      in if r < 1 / 2 then n else if 1 / 2 < r then n + 1
         else if even n then n else n + 1)"

text \<open>The nearest double: a significand of 53 bits at the exponent of the number.\<close>

definition to_double :: "rat \<Rightarrow> rat" where
  "to_double x =
     (if x = 0 then 0
      else (let q = pow2 (binary_exponent \<bar>x\<bar> - 52)
            in of_int (round_ties_even (x / q)) * q))"

definition js_div :: "rat \<Rightarrow> rat \<Rightarrow> rat" where
  "js_div a b = to_double (a / b)"

definition js_mul :: "rat \<Rightarrow> rat \<Rightarrow> rat" where
  "js_mul a b = to_double (a * b)"

text \<open>
  \<open>Math.round\<close> gives the integer nearest to its argument, a tie going up; it is exact.
  \<open>toFixed(4)\<close> takes the integer \<open>n\<close> with \<open>n / 10^4\<close> nearest to the absolute value
  of the double, the larger at a tie, and prints \<open>n / 10^4\<close> with the sign; numbers
  from \<open>10^21\<close> on are printed in exponent notation. \<open>parseFloat\<close> reads the decimal
  back as the nearest double, which for the exponent notation is the number itself.
\<close>

definition js_round :: "rat \<Rightarrow> int" where
  "js_round x = \<lfloor>x + 1 / 2\<rfloor>"

definition toFixed4 :: "rat \<Rightarrow> rat" where
  "toFixed4 x =
     (if 10 ^ 21 \<le> \<bar>x\<bar> then x
      else if x < 0 then to_double (- (of_int \<lfloor>- x * 10 ^ 4 + 1 / 2\<rfloor> / 10 ^ 4))
      else to_double (of_int \<lfloor>x * 10 ^ 4 + 1 / 2\<rfloor> / 10 ^ 4))"

record progress =
  total_recipients :: int
  p_sent :: int
  p_failed :: int
  p_pending :: int
  percentage :: rat
  success_rate :: rat

text \<open>
  \<open>calculateProgress\<close>. Both divisions are behind the guards of the source, so a
  division by zero is never evaluated.
\<close>

definition calculateProgress :: "campaign \<Rightarrow> progress" where
  "calculateProgress cmp =
     (let total = recipient_count cmp;
          sent = sent_count cmp;
          failed = failed_count cmp;
          pending = total - sent - failed;
          pct = (if total > 0
                 then js_div
                        (of_int (js_round
                           (js_mul (js_mul (js_div (of_int (sent + failed)) (of_int total)) 100)
                              10)))
                        10
                 else 0);
          successRate = (if sent + failed > 0
                         then toFixed4 (js_div (of_int sent) (of_int (sent + failed)))
                         else 0)
      in \<lparr>total_recipients = total, p_sent = sent, p_failed = failed, p_pending = pending,
          percentage = pct, success_rate = successRate\<rparr>)"

section \<open>The send route (routes/campaigns.js, POST /api/campaigns/:id/send)\<close>

datatype response =
  ErrorResponse nat string string
| SendingStarted nat campaign_status int

fun status_name :: "campaign_status \<Rightarrow> string" where
  "status_name Draft = ''draft''"
| "status_name Queued = ''queued''"
| "status_name Sending = ''sending''"
| "status_name Completed = ''completed''"
| "status_name Failed = ''failed''"
| "status_name Cancelled = ''cancelled''"

definition set_queued :: "nat \<Rightarrow> world \<Rightarrow> world" where
  "set_queued campaignId w =
     w\<lparr>campaigns :=
         map (\<lambda>c. if c_id c = campaignId
                  then c\<lparr>c_status := Queued, updated_at := clock w\<rparr> else c)
           (campaigns w)\<rparr>"

text \<open>
  The handler up to its answer. The id parameter is what \<open>parseInt\<close> gave, \<open>None\<close>
  for \<open>NaN\<close>. The third component is the campaign handed to \<open>setImmediate\<close>, if any.
\<close>

definition send_route :: "nat option \<Rightarrow> nat \<Rightarrow> world \<Rightarrow> response \<times> world \<times> nat option" where
  "send_route idParam userId w =
     (case idParam of
        None \<Rightarrow> (ErrorResponse 400 ''Invalid campaign ID'' ''Campaign ID must be a number'', w, None)
      | Some campaignId \<Rightarrow>
          (case filter (\<lambda>c. c_id c = campaignId \<and> c_user_id c = userId) (campaigns w) of
             [] \<Rightarrow>
               (ErrorResponse 404 ''Campaign not found''
                  ''Campaign not found or you do not have permission to access it'', w, None)
           | cmp # _ \<Rightarrow>
               if c_status cmp \<noteq> Draft
               then (ErrorResponse 400 ''Cannot send campaign''
                       (''Campaign status is '' @ [CHR 0x22] @ status_name (c_status cmp)
                          @ [CHR 0x22] @ ''. Only draft campaigns can be sent.''), w, None)
               else if filter (\<lambda>s. s_user_id s = userId) (smtp_configs w) = []
               then (ErrorResponse 400 ''No SMTP configuration''
                       ''Please configure your Gmail SMTP settings before sending campaigns'',
                     w, None)
               else (SendingStarted (c_id cmp) Queued (recipient_count cmp),
                     set_queued campaignId w, Some campaignId)))"

text \<open>
  The whole request: the answer is fixed by the handler; the callback given to
  \<open>setImmediate\<close> runs \<open>sendCampaign\<close> afterwards, and what that throws is caught there
  and written to the console only.
\<close>

definition send_request :: "env \<Rightarrow> nat option \<Rightarrow> nat \<Rightarrow> world \<Rightarrow> response \<times> world" where
  "send_request e idParam userId w =
     (case send_route idParam userId w of
        (resp, w1, None) \<Rightarrow> (resp, w1)
      | (resp, w1, Some campaignId) \<Rightarrow> (resp, snd (sendCampaign e campaignId userId w1)))"

section \<open>Reading the tables\<close>

text \<open>The row of a campaign, and the number of its recipients still pending.\<close>

definition campaign_row :: "nat \<Rightarrow> world \<Rightarrow> campaign option" where
  "campaign_row campaignId w = find (\<lambda>c. c_id c = campaignId) (campaigns w)"

definition pending_count :: "nat \<Rightarrow> world \<Rightarrow> nat" where
  "pending_count campaignId w =
     length (filter (\<lambda>r. r_campaign_id r = campaignId \<and> r_status r = Pending)
               (campaign_recipients w))"

section \<open>What the clean-up pass deletes\<close>

text \<open>
  A description of the clean-up pass that does not follow the scan. A stretch of text is
  a match of the clean-up expression when it is \<open>{{\<close>, then a run that is not empty and
  has no \<open>}\<close> in it (it may hold \<open>{\<close>, spaces, whole sentences), then \<open>}}\<close>. A position
  is inside a match when some stretch of the text that covers it is one. The text without
  its matches keeps, in order, the characters at the positions inside none.
\<close>

definition cleanup_match :: "string \<Rightarrow> bool" where
  "cleanup_match p =
     (5 \<le> length p \<and> take 2 p = ''{{'' \<and> drop (length p - 2) p = ''}}''
      \<and> CHR ''}'' \<notin> set (take (length p - 4) (drop 2 p)))"

definition inside_cleanup_match :: "string \<Rightarrow> nat \<Rightarrow> bool" where
  "inside_cleanup_match T i =
     (\<exists>s \<in> {0..i}. \<exists>e \<in> {i<..length T}. cleanup_match (take (e - s) (drop s T)))"

definition without_cleanup_matches :: "string \<Rightarrow> string" where
  "without_cleanup_matches T =
     map (\<lambda>i. T ! i) (filter (\<lambda>i. \<not> inside_cleanup_match T i) [0..<length T])"

section \<open>Example data\<close>

text \<open>
  A campaign of user 7 with id 4, up to three recipients, and a transport that rejects
  the address of the second recipient. The status of the campaign, the recipients and
  the outcome of \<open>transporter.verify()\<close> are parameters.
\<close>

definition example_campaign :: "campaign_status \<Rightarrow> campaign" where
  "example_campaign st =
     \<lparr>c_id = 4, c_user_id = 7, c_subject = ''Hello {{name}}'',
      c_email_body = ''Dear {{name}}, your code is {{code}}.'', c_html_body = None,
      recipient_count = 3, sent_count = 0, failed_count = 0, c_status = st,
      started_at = None, completed_at = None, updated_at = 0\<rparr>"

definition example_recipient :: "nat \<Rightarrow> string \<Rightarrow> recipient_status \<Rightarrow> recipient" where
  "example_recipient i addr st =
     \<lparr>r_id = i, r_campaign_id = 4, r_email = addr, r_name = Some ''Ana'',
      custom_fields = Some [(''code'', Some ''X1'')], r_status = st,
      sent_at = None, error_message = None\<rparr>"

definition example_world :: "campaign_status \<Rightarrow> recipient list \<Rightarrow> world" where
  "example_world st rs =
     \<lparr>campaigns = [example_campaign st],
      campaign_recipients = rs,
      email_logs = [],
      smtp_configs = [\<lparr>s_user_id = 7, gmail_address = ''sender@gmail.com'',
                       app_password_encrypted = ''secret'', from_name = ''Sender''\<rparr>],
      clock = 5000,
      smtp_calls = []\<rparr>"

definition three_pending :: "recipient list" where
  "three_pending =
     [example_recipient 11 ''ana@example.com'' Pending,
      example_recipient 12 ''bob@example.com'' Pending,
      example_recipient 13 ''eve@example.com'' Pending]"

definition example_env :: "verify_outcome \<Rightarrow> env" where
  "example_env v =
     \<lparr>decrypt = (\<lambda>s. Some s),
      verify = (\<lambda>t. v),
      sendMail = (\<lambda>t now m. if mail_to m = ''bob@example.com'' then Response550
                              else Accepted (''id-'' @ mail_to m))\<rparr>"

text \<open>The example campaign with given counters, for the progress tracker.\<close>

definition progress_campaign :: "int \<Rightarrow> int \<Rightarrow> int \<Rightarrow> campaign" where
  "progress_campaign tot snt fld =
     (example_campaign Sending)\<lparr>recipient_count := tot, sent_count := snt, failed_count := fld\<rparr>"

definition example_transporter :: transporter where
  "example_transporter =
     \<lparr>auth_user = ''sender@gmail.com'', auth_pass = ''secret'', default_from = ''Sender''\<rparr>"

text \<open>Recipients of which one is sent, one failed and one pending.\<close>

definition mixed_recipients :: "recipient list" where
  "mixed_recipients =
     [(example_recipient 11 ''ana@example.com'' Sent)\<lparr>sent_at := Some 1000\<rparr>,
      (example_recipient 12 ''bob@example.com'' SendFailed)
        \<lparr>error_message := Some ''Recipient address rejected''\<rparr>,
      example_recipient 13 ''eve@example.com'' Pending]"

section \<open>Notions used to state the properties\<close>

text \<open>The number of recipients of a campaign in a given status.\<close>

definition status_count :: "nat \<Rightarrow> recipient_status \<Rightarrow> world \<Rightarrow> nat" where
  "status_count campaignId st w =
     length (filter (\<lambda>r. r_campaign_id r = campaignId \<and> r_status r = st)
               (campaign_recipients w))"

text \<open>
  The state of the send loop after its first \<open>k\<close> iterations, in a run of
  \<open>sendCampaign\<close> that reaches the loop with the campaign row \<open>cmp\<close> and the
  transporter \<open>t\<close>.
\<close>

definition loop_state ::
  "env \<Rightarrow> nat \<Rightarrow> nat \<Rightarrow> campaign \<Rightarrow> transporter \<Rightarrow> world \<Rightarrow> nat \<Rightarrow> nat \<times> nat \<times> world" where
  "loop_state e campaignId userId cmp t w k =
     send_loop e campaignId userId cmp t (take k (pending_recipients campaignId w))
       (0, 0, updateCampaignStatus campaignId Sending (Some (clock w)) None w)"

text \<open>
  The rows of the second table are those of the first, in the same order and with the
  same ids, and a row whose id is not in the given set is the same in both.
\<close>

definition unchanged_outside :: "nat set \<Rightarrow> recipient list \<Rightarrow> recipient list \<Rightarrow> bool" where
  "unchanged_outside ids xs xs' =
     list_all2 (\<lambda>x x'. r_id x' = r_id x \<and> (r_id x \<notin> ids \<longrightarrow> x' = x)) xs xs'"

text \<open>
  What the loop relies on when it starts on a list of recipients: ids are unique in the
  table, and the recipients to process are distinct rows of the table, pending and of
  the campaign.
\<close>

definition loop_ready :: "nat \<Rightarrow> recipient list \<Rightarrow> world \<Rightarrow> bool" where
  "loop_ready campaignId rs w =
     (distinct (map r_id (campaign_recipients w)) \<and> distinct (map r_id rs)
      \<and> (\<forall>r \<in> set rs. r \<in> set (campaign_recipients w)
             \<and> r_campaign_id r = campaignId \<and> r_status r = Pending))"

section \<open>Properties\<close>

subsection \<open>Matches of the clean-up expression\<close>

lemma cleanup_match_iff:
  "cleanup_match p
     \<longleftrightarrow> (\<exists>key. key \<noteq> [] \<and> CHR ''}'' \<notin> set key \<and> p = ''{{'' @ key @ ''}}'')"
proof
  assume wf: "cleanup_match p"
  define key where "key = take (length p - 4) (drop 2 p)"
  have len: "5 \<le> length p" and hd: "take 2 p = ''{{''" and tl: "drop (length p - 2) p = ''}}''"
    and free: "CHR ''}'' \<notin> set key"
    using wf by (simp_all add: cleanup_match_def key_def)
  have "p = take 2 p @ drop 2 p" by simp
  also have "drop 2 p = take (length p - 4) (drop 2 p) @ drop (length p - 4) (drop 2 p)"
    by (rule append_take_drop_id [symmetric])
  also have "drop (length p - 4) (drop 2 p) = drop (length p - 2) p"
  proof -
    have "length p - 4 + 2 = length p - 2" using len by simp
    then show ?thesis by (simp only: drop_drop)
  qed
  finally have "p = ''{{'' @ key @ ''}}''"
    using hd tl by (simp add: key_def)
  moreover have "key \<noteq> []" using len by (simp add: key_def)
  ultimately show "\<exists>key. key \<noteq> [] \<and> CHR ''}'' \<notin> set key \<and> p = ''{{'' @ key @ ''}}''"
    using free by blast
next
  assume "\<exists>key. key \<noteq> [] \<and> CHR ''}'' \<notin> set key \<and> p = ''{{'' @ key @ ''}}''"
  then obtain key where key: "key \<noteq> []" "CHR ''}'' \<notin> set key" "p = ''{{'' @ key @ ''}}''"
    by blast
  have "5 \<le> length p" using key(1,3) by (cases key) simp_all
  then show "cleanup_match p"
    using key by (simp add: cleanup_match_def)
qed

lemma match_placeholder_Some_iff:
  "match_placeholder u = Some n
     \<longleftrightarrow> (\<exists>key rest. key \<noteq> [] \<and> CHR ''}'' \<notin> set key
            \<and> u = ''{{'' @ key @ ''}}'' @ rest \<and> n = length key + 4)"
proof
  assume m: "match_placeholder u = Some n"
  then obtain t where u: "u = CHR ''{'' # CHR ''{'' # t"
    by (auto simp: match_placeholder_def split: list.splits if_splits)
  define k where "k = takeWhile (\<lambda>c. c \<noteq> CHR ''}'') t"
  define r where "r = dropWhile (\<lambda>c. c \<noteq> CHR ''}'') t"
  have facts: "k \<noteq> []" "take 2 r = ''}}''" "n = length k + 4"
    using m unfolding u match_placeholder_def k_def r_def
    by (simp_all add: Let_def split: if_splits)
  have free: "CHR ''}'' \<notin> set k"
    unfolding k_def using set_takeWhileD [of "CHR ''}''" "\<lambda>c. c \<noteq> CHR ''}''" t] by blast
  have "r = take 2 r @ drop 2 r" by simp
  then have r: "r = ''}}'' @ drop 2 r" using facts(2) by simp
  have "t = k @ r" by (simp add: k_def r_def)
  then have "u = ''{{'' @ k @ ''}}'' @ drop 2 r"
    using r u by simp
  then show "\<exists>key rest. key \<noteq> [] \<and> CHR ''}'' \<notin> set key
            \<and> u = ''{{'' @ key @ ''}}'' @ rest \<and> n = length key + 4"
    using facts free by blast
next
  assume "\<exists>key rest. key \<noteq> [] \<and> CHR ''}'' \<notin> set key
            \<and> u = ''{{'' @ key @ ''}}'' @ rest \<and> n = length key + 4"
  then obtain key rest where key: "key \<noteq> []" "CHR ''}'' \<notin> set key"
      "u = ''{{'' @ key @ ''}}'' @ rest" "n = length key + 4"
    by blast
  have all: "\<forall>x \<in> set key. x \<noteq> CHR ''}''"
    using key(2) by blast
  have tw: "takeWhile (\<lambda>c. c \<noteq> CHR ''}'') (key @ ''}}'' @ rest) = key"
    using all by (simp add: takeWhile_tail)
  have dw: "dropWhile (\<lambda>c. c \<noteq> CHR ''}'') (key @ ''}}'' @ rest) = ''}}'' @ rest"
    using all by (simp add: dropWhile_append3)
  show "match_placeholder u = Some n"
    unfolding key(3) match_placeholder_def using key(1,4) tw dw by simp
qed

lemma take_prefix_length: "v = xs @ rest \<Longrightarrow> m = length xs \<Longrightarrow> take m v = xs"
  by simp

lemma match_placeholder_facts:
  assumes "match_placeholder v = Some m"
  shows "5 \<le> m" and "m \<le> length v"
    and "length (takeWhile (\<lambda>c. c \<noteq> CHR ''}'') v) = m - 2"
    and "v ! 0 = CHR ''{''" and "v ! (m - 1) = CHR ''}''"
proof -
  obtain key rest where key: "key \<noteq> []" "CHR ''}'' \<notin> set key"
      "v = ''{{'' @ key @ ''}}'' @ rest" "m = length key + 4"
    using assms by (auto simp: match_placeholder_Some_iff)
  show "5 \<le> m" using key(1,4) by (cases key) simp_all
  show "m \<le> length v" using key(3,4) by simp
  have all: "\<forall>x \<in> set key. x \<noteq> CHR ''}''"
    using key(2) by blast
  have "takeWhile (\<lambda>c. c \<noteq> CHR ''}'') v = ''{{'' @ key"
    unfolding key(3) using all by (simp add: takeWhile_tail)
  then show "length (takeWhile (\<lambda>c. c \<noteq> CHR ''}'') v) = m - 2"
    using key(4) by simp
  show "v ! 0 = CHR ''{''" unfolding key(3) by simp
  have "v ! (m - 1) = (''{{'' @ key @ ''}}'' @ rest) ! (Suc (Suc (Suc (length key))))"
    using key(3,4) by simp
  also have "\<dots> = (''}}'' @ rest) ! 1"
    by (simp add: nth_append)
  finally show "v ! (m - 1) = CHR ''}''" by simp
qed

lemma match_placeholder_is_cleanup_match:
  "match_placeholder v = Some m \<longleftrightarrow> m \<le> length v \<and> cleanup_match (take m v)"
proof
  assume "match_placeholder v = Some m"
  then obtain key rest where key: "key \<noteq> []" "CHR ''}'' \<notin> set key"
      "v = ''{{'' @ key @ ''}}'' @ rest" "m = length key + 4"
    by (auto simp: match_placeholder_Some_iff)
  have "v = (''{{'' @ key @ ''}}'') @ rest" and "m = length (''{{'' @ key @ ''}}'')"
    using key(3,4) by simp_all
  then have "take m v = ''{{'' @ key @ ''}}''"
    by (rule take_prefix_length)
  then show "m \<le> length v \<and> cleanup_match (take m v)"
    using key by (auto simp: cleanup_match_iff)
next
  assume h: "m \<le> length v \<and> cleanup_match (take m v)"
  then obtain key where key: "key \<noteq> []" "CHR ''}'' \<notin> set key" "take m v = ''{{'' @ key @ ''}}''"
    by (auto simp: cleanup_match_iff)
  have "length (take m v) = length key + 4" unfolding key(3) by simp
  then have m: "m = length key + 4" using h by simp
  have "v = take m v @ drop m v" by simp
  then have "v = ''{{'' @ key @ ''}}'' @ drop m v"
    unfolding key(3) by simp
  then show "match_placeholder v = Some m"
    using key(1,2) m by (auto simp: match_placeholder_Some_iff)
qed

lemma takeWhile_drop:
  "p \<le> length (takeWhile P xs) \<Longrightarrow> takeWhile P (drop p xs) = drop p (takeWhile P xs)"
proof (induction xs arbitrary: p)
  case Nil
  then show ?case by simp
next
  case (Cons x xs)
  then show ?case by (cases p) (auto split: if_splits)
qed

lemma match_placeholder_overlap:
  assumes "match_placeholder u = Some n" and "0 < p" and "p < n"
    and "match_placeholder (drop p u) = Some m"
  shows "p + m = n"
proof -
  note fu = match_placeholder_facts [OF assms(1)]
  note fv = match_placeholder_facts [OF assms(4)]
  have "p \<noteq> n - 1"
  proof
    assume "p = n - 1"
    then have "drop p u ! 0 = CHR ''}''"
      using fu(2,5) assms(3) by simp
    with fv(4) show False by simp
  qed
  then have le: "p \<le> length (takeWhile (\<lambda>c. c \<noteq> CHR ''}'') u)"
    using assms(3) fu(3) by simp
  have "length (takeWhile (\<lambda>c. c \<noteq> CHR ''}'') (drop p u)) = n - 2 - p"
    using takeWhile_drop [OF le] fu(3) by simp
  then have "m - 2 = n - 2 - p" using fv(3) by simp
  then show ?thesis using fv(1) fu(1) le fu(3) by simp
qed

lemma inside_cleanup_match_iff:
  "inside_cleanup_match T i
     \<longleftrightarrow> (\<exists>s n. s \<le> i \<and> i < s + n \<and> match_placeholder (drop s T) = Some n)"
proof
  assume "inside_cleanup_match T i"
  then obtain s e where se: "s \<le> i" "i < e" "e \<le> length T"
      "cleanup_match (take (e - s) (drop s T))"
    by (auto simp: inside_cleanup_match_def)
  have "e - s \<le> length (drop s T)" using se(1-3) by simp
  then have "match_placeholder (drop s T) = Some (e - s)"
    using se(4) by (simp add: match_placeholder_is_cleanup_match)
  moreover have "i < s + (e - s)" using se(1,2) by simp
  ultimately show "\<exists>s n. s \<le> i \<and> i < s + n \<and> match_placeholder (drop s T) = Some n"
    using se(1) by blast
next
  assume "\<exists>s n. s \<le> i \<and> i < s + n \<and> match_placeholder (drop s T) = Some n"
  then obtain s n where sn: "s \<le> i" "i < s + n" "match_placeholder (drop s T) = Some n"
    by blast
  note f = match_placeholder_facts [OF sn(3)]
  have wf: "cleanup_match (take n (drop s T))"
    using sn(3) by (simp add: match_placeholder_is_cleanup_match)
  have e: "s + n \<le> length T" using f(1,2) by simp
  have "s \<in> {0..i}" "s + n \<in> {i<..length T}"
    using sn(1,2) e by simp_all
  moreover have "cleanup_match (take (s + n - s) (drop s T))"
    using wf by simp
  ultimately show "inside_cleanup_match T i"
    unfolding inside_cleanup_match_def by blast
qed

subsection \<open>The clean-up pass deletes exactly what lies inside a match\<close>

lemma remove_unreplaced_match:
  assumes "match_placeholder u = Some n"
  shows "remove_unreplaced u = remove_unreplaced (drop n u)"
proof -
  note f = match_placeholder_facts [OF assms]
  obtain c cs where u: "u = c # cs" using f(1,2) by (cases u) simp_all
  have "drop n u = drop (n - 1) cs" using f(1) by (simp add: u drop_Cons')
  then show ?thesis using assms by (simp add: u)
qed

lemma remove_unreplaced_no_match:
  assumes "match_placeholder (c # cs) = None"
  shows "remove_unreplaced (c # cs) = c # remove_unreplaced cs"
  using assms by simp

lemma scan_from:
  assumes "j \<le> length T"
    and "\<forall>s<j. \<forall>n. match_placeholder (drop s T) = Some n \<longrightarrow> s + n \<le> j"
  shows "map (\<lambda>i. T ! i) (filter (\<lambda>i. \<not> inside_cleanup_match T i) [j..<length T])
       = remove_unreplaced (drop j T)"
  using assms
proof (induction "length T - j" arbitrary: j rule: less_induct)
  case less
  show ?case
  proof (cases "j = length T")
    case True
    then show ?thesis by simp
  next
    case False
    then have lt: "j < length T" using less.prems(1) by simp
    have dr: "drop j T = T ! j # drop (Suc j) T"
      using lt by (rule Cons_nth_drop_Suc [symmetric])
    show ?thesis
    proof (cases "match_placeholder (drop j T)")
      case None
      have not_in: "\<not> inside_cleanup_match T j"
      proof
        assume "inside_cleanup_match T j"
        then obtain s n where sn: "s \<le> j" "j < s + n" "match_placeholder (drop s T) = Some n"
          by (auto simp: inside_cleanup_match_iff)
        show False
        proof (cases "s = j")
          case True
          with sn(3) None show False by simp
        next
          case False
          then have "s < j" using sn(1) by simp
          then have "s + n \<le> j" using less.prems(2) sn(3) by blast
          with sn(2) show False by simp
        qed
      qed
      have pre: "\<forall>s<Suc j. \<forall>n. match_placeholder (drop s T) = Some n \<longrightarrow> s + n \<le> Suc j"
      proof (intro allI impI)
        fix s n
        assume s: "s < Suc j" and m: "match_placeholder (drop s T) = Some n"
        have "s \<noteq> j" using m None by auto
        then have "s < j" using s by simp
        then have "s + n \<le> j" using less.prems(2) m by blast
        then show "s + n \<le> Suc j" by simp
      qed
      have ih: "map (\<lambda>i. T ! i) (filter (\<lambda>i. \<not> inside_cleanup_match T i) [Suc j..<length T])
              = remove_unreplaced (drop (Suc j) T)"
        using lt pre by (intro less.hyps) simp_all
      have "[j..<length T] = j # [Suc j..<length T]"
        using lt by (rule upt_conv_Cons)
      then have "map (\<lambda>i. T ! i) (filter (\<lambda>i. \<not> inside_cleanup_match T i) [j..<length T])
               = T ! j # remove_unreplaced (drop (Suc j) T)"
        using not_in ih by simp
      also have "\<dots> = remove_unreplaced (drop j T)"
        using None unfolding dr by simp
      finally show ?thesis .
    next
      case (Some n)
      note f = match_placeholder_facts [OF Some]
      have e: "j + n \<le> length T" using f(2) lt by simp
      have pre: "\<forall>s<j + n. \<forall>m. match_placeholder (drop s T) = Some m \<longrightarrow> s + m \<le> j + n"
      proof (intro allI impI)
        fix s m
        assume s: "s < j + n" and m: "match_placeholder (drop s T) = Some m"
        consider "s < j" | "s = j" | "j < s" by linarith
        then show "s + m \<le> j + n"
        proof cases
          case 1
          then have "s + m \<le> j" using less.prems(2) m by blast
          then show ?thesis by simp
        next
          case 2
          then show ?thesis using m Some by simp
        next
          case 3
          have "match_placeholder (drop (s - j) (drop j T)) = Some m"
            using m 3 by simp
          then have "(s - j) + m = n"
            using Some 3 s by (intro match_placeholder_overlap [of "drop j T" n]) simp_all
          then show ?thesis using 3 by simp
        qed
      qed
      have ih: "map (\<lambda>i. T ! i) (filter (\<lambda>i. \<not> inside_cleanup_match T i) [j + n..<length T])
              = remove_unreplaced (drop (j + n) T)"
        using e f(1) lt pre by (intro less.hyps) simp_all
      have all_in: "\<forall>i \<in> set [j..<j + n]. inside_cleanup_match T i"
      proof
        fix i
        assume "i \<in> set [j..<j + n]"
        then have "j \<le> i" "i < j + n" by simp_all
        then show "inside_cleanup_match T i"
          using Some by (auto simp: inside_cleanup_match_iff)
      qed
      have split: "[j..<length T] = [j..<j + n] @ [j + n..<length T]"
        using e by (metis le_add1 le_Suc_ex upt_add_eq_append)
      have "filter (\<lambda>i. \<not> inside_cleanup_match T i) [j..<j + n] = []"
        using all_in by (simp add: filter_empty_conv)
      then have "map (\<lambda>i. T ! i) (filter (\<lambda>i. \<not> inside_cleanup_match T i) [j..<length T])
               = remove_unreplaced (drop (j + n) T)"
        unfolding split using ih by simp
      also have "\<dots> = remove_unreplaced (drop j T)"
        using remove_unreplaced_match [OF Some] by (simp add: add.commute)
      finally show ?thesis .
    qed
  qed
qed

lemma remove_unreplaced_characterised:
  "remove_unreplaced T = without_cleanup_matches T"
  using scan_from [of 0 T] by (simp add: without_cleanup_matches_def)

lemma no_closing_brace_no_placeholder:
  assumes "CHR ''}'' \<notin> set T"
  shows "\<not> inside_cleanup_match T i"
proof
  assume "inside_cleanup_match T i"
  then obtain s n where sn: "match_placeholder (drop s T) = Some n"
    by (auto simp: inside_cleanup_match_iff)
  note f = match_placeholder_facts [OF sn]
  have "drop s T ! (n - 1) \<in> set (drop s T)"
    using f(1,2) by (intro nth_mem) simp
  then have "CHR ''}'' \<in> set T"
    using f(5) by (metis in_set_dropD)
  with assms show False by simp
qed

subsection \<open>Rendering\<close>

lemma render_no_fields: "replaceTemplateVariables (Some T) [] = remove_unreplaced T"
  by (cases T) (simp_all add: replaceTemplateVariables_def)

text \<open>
  With no fields the renderer is the clean-up pass alone, and what it returns is the
  template without the matches of the clean-up expression: every character inside a
  match is deleted, every other character is kept, in order. A template none of whose
  positions is inside a match comes back verbatim.
\<close>

lemma render_no_fields_characterised:
  "replaceTemplateVariables (Some T) [] = without_cleanup_matches T
   \<and> ((\<forall>i \<in> {0..<length T}. \<not> inside_cleanup_match T i)
        \<longrightarrow> replaceTemplateVariables (Some T) [] = T)"
proof
  show eq: "replaceTemplateVariables (Some T) [] = without_cleanup_matches T"
    by (simp add: render_no_fields remove_unreplaced_characterised)
  show "(\<forall>i \<in> {0..<length T}. \<not> inside_cleanup_match T i)
        \<longrightarrow> replaceTemplateVariables (Some T) [] = T"
  proof
    assume "\<forall>i \<in> {0..<length T}. \<not> inside_cleanup_match T i"
    then have "filter (\<lambda>i. \<not> inside_cleanup_match T i) [0..<length T] = [0..<length T]"
      by (simp add: filter_id_conv)
    then have "without_cleanup_matches T = map (\<lambda>i. T ! i) [0..<length T]"
      by (simp add: without_cleanup_matches_def)
    then show "replaceTemplateVariables (Some T) [] = T"
      unfolding eq by (simp add: map_nth)
  qed
qed

text \<open>
  A template with no \<open>}\<close> in it has no match, so it comes back verbatim: an unterminated
  token with nothing but plain text after it is left as it is.
\<close>

lemma render_no_closing_brace:
  assumes "CHR ''}'' \<notin> set T"
  shows "replaceTemplateVariables (Some T) [] = T"
proof -
  have "\<forall>i \<in> {0..<length T}. \<not> inside_cleanup_match T i"
    using assms by (simp add: no_closing_brace_no_placeholder)
  with render_no_fields_characterised [of T] show ?thesis by blast
qed

lemma render_unterminated_last_example:
  "replaceTemplateVariables (Some ''Hello {{name'') [] = ''Hello {{name''
   \<and> replaceTemplateVariables (Some ''Hi {{x}} and {{name'') [] = ''Hi  and {{name''"
  by (simp add: replaceTemplateVariables_def match_placeholder_def)

text \<open>
  The pass is a single one over the template: what it leaves can read as a placeholder
  that the template did not contain.
\<close>

lemma render_single_pass_example:
  "replaceTemplateVariables (Some ''{{x}{{a}}}'') [] = ''{{x}}''"
  by (simp add: replaceTemplateVariables_def match_placeholder_def)

text \<open>
  Claim C5, evaluated on templates in which an unterminated token comes before a
  placeholder. The clean-up expression \<open>/\{\{[^}]+\}\}/g\<close> lets the key hold any character
  but \<open>}\<close>, an opening brace too. So a match starts at the unterminated \<open>{{\<close> and runs to
  the \<open>}}\<close> that closes the placeholder after it: the unterminated token and the text
  between the two are deleted with the placeholder. They are not left verbatim, and the
  result is not the template with its placeholder removed, which would be
  \<open>Hi {{name and !\<close> for the first template and
  \<open>Dear {{name, thanks. Your code is .\<close> for the second.
\<close>

theorem render_deletes_unterminated_token:
  "replaceTemplateVariables (Some ''Hi {{name and {{x}}!'') [] = ''Hi !''
   \<and> replaceTemplateVariables (Some ''Hi {{name and {{x}}!'') [] \<noteq> ''Hi {{name and !''
   \<and> replaceTemplateVariables (Some ''Dear {{name, thanks. Your code is {{code}}.'') []
     = ''Dear .''
   \<and> replaceTemplateVariables (Some ''Dear {{name, thanks. Your code is {{code}}.'') []
     \<noteq> ''Dear {{name, thanks. Your code is .''"
  by (simp add: replaceTemplateVariables_def match_placeholder_def)

text \<open>
  The example of the specification, keys told apart by case, every occurrence of a key
  replaced, and null treated as the empty string.
\<close>

lemma render_example:
  "replaceTemplateVariables (Some ''Hello {{name}}, id {{missing}}'') [(''name'', Some ''Ana'')]
     = ''Hello Ana, id ''"
  by (simp add: replaceTemplateVariables_def token_def or_empty_def match_placeholder_def)

lemma render_case_sensitive:
  "replaceTemplateVariables (Some ''Hello {{Name}} and {{name}}'')
     [(''Name'', Some ''JOHN''), (''name'', Some ''john'')]
     = ''Hello JOHN and john''"
  by (simp add: replaceTemplateVariables_def token_def or_empty_def match_placeholder_def)

lemma render_every_occurrence:
  "replaceTemplateVariables (Some ''{{name}} is great! We love {{name}}!'')
     [(''name'', Some ''John'')]
     = ''John is great! We love John!''"
  by (simp add: replaceTemplateVariables_def token_def or_empty_def match_placeholder_def)

lemma render_null_value:
  "replaceTemplateVariables (Some ''Hello {{name}}, {{name}}!'') [(''name'', None)]
     = ''Hello , !''"
  by (simp add: replaceTemplateVariables_def token_def or_empty_def match_placeholder_def)

text \<open>
  Claim C4, evaluated on values with a dollar sign. The value is passed to
  \<open>String.prototype.replace\<close> as a replacement string, so \<open>$$\<close> in it comes out as one
  \<open>$\<close>, and \<open>$&\<close> comes out as the placeholder itself, which the clean-up pass then
  deletes: the placeholder is not replaced with the value of the field.
\<close>

theorem render_expands_dollar_patterns:
  "replaceTemplateVariables (Some ''Hello {{name}}!'') [(''name'', Some ''Ca$$h'')]
     = ''Hello Ca$h!''
   \<and> replaceTemplateVariables (Some ''Hello {{name}}!'') [(''name'', Some ''Fish $& Chips'')]
     = ''Hello Fish  Chips!''"
  by (simp add: replaceTemplateVariables_def token_def or_empty_def match_placeholder_def)

subsection \<open>Reading and updating the campaign row\<close>

lemma find_filter_first:
  "find P xs = Some c \<Longrightarrow> Q c \<Longrightarrow> \<exists>rest. filter (\<lambda>x. P x \<and> Q x) xs = c # rest"
proof (induction xs)
  case Nil
  then show ?case by simp
next
  case (Cons a xs)
  then show ?case by (cases "P a") auto
qed

lemma find_map_update:
  assumes "\<And>c. c_id (f c) = c_id c"
  shows "find (\<lambda>c. c_id c = cid) (map (\<lambda>c. if c_id c = cid then f c else c) cs)
       = map_option f (find (\<lambda>c. c_id c = cid) cs)"
  using assms by (induction cs) auto

lemma campaign_row_updateCampaignStatus:
  "campaign_row cid (updateCampaignStatus cid st sa ca w) =
     map_option (\<lambda>c. c\<lparr>c_status := st, updated_at := clock w,
                         started_at := (case sa of None \<Rightarrow> started_at c | Some t \<Rightarrow> Some t),
                         completed_at := (case ca of None \<Rightarrow> completed_at c | Some t \<Rightarrow> Some t)\<rparr>)
       (campaign_row cid w)"
  unfolding campaign_row_def updateCampaignStatus_def
  by (simp add: find_map_update)

lemma selected_campaign:
  assumes "campaign_row cid w = Some c" "c_user_id c = uid"
  shows "\<exists>rest. filter (\<lambda>c. c_id c = cid \<and> c_user_id c = uid) (campaigns w) = c # rest"
  using assms unfolding campaign_row_def by (rule find_filter_first)

lemma pending_recipients_Nil:
  "pending_recipients cid w = [] \<longleftrightarrow> pending_count cid w = 0"
  unfolding pending_recipients_def pending_count_def
  by (simp flip: length_0_conv)


subsection \<open>Runs that never enter the send loop\<close>

lemma campaign_row_example [simp]:
  "campaign_row 4 (example_world st rs) = Some (example_campaign st)"
  by (simp add: campaign_row_def example_world_def example_campaign_def)

lemma example_campaign_sel [simp]:
  "c_user_id (example_campaign st) = 7" "c_status (example_campaign st) = st"
  "sent_count (example_campaign st) = 0" "failed_count (example_campaign st) = 0"
  "recipient_count (example_campaign st) = 3" "completed_at (example_campaign st) = None"
  by (simp_all add: example_campaign_def)

lemma pending_count_example [simp]:
  "pending_count 4 (example_world st three_pending) = 3"
  "pending_count 4 (example_world st []) = 0"
  by (simp_all add: pending_count_def example_world_def three_pending_def example_recipient_def)

lemma connect_transport_example:
  "connect_transport (example_env VerifyOk) 7 (example_world st rs)
     = Inr \<lparr>auth_user = ''sender@gmail.com'', auth_pass = ''secret'', default_from = ''Sender''\<rparr>"
  "connect_transport (example_env EAUTH) 7 (example_world st rs)
     = Inl ''Invalid Gmail credentials. Please check your email and app password.''"
  by (simp_all add: connect_transport_def createTransporter_def verifyTransporter_def
        createTransporterFromCredentials_def example_env_def example_world_def)

lemma clock_example [simp]: "clock (example_world st rs) = 5000"
  by (simp add: example_world_def)

text \<open>
  Claim C10. A queued campaign with no pending recipient: \<open>sendCampaign\<close> returns
  \<open>{sent: 0, failed: 0}\<close> and sets the campaign to \<open>completed\<close>; on this path it writes
  the current time to \<open>started_at\<close> and does not write \<open>completed_at\<close>, which keeps the
  value it had (null for a campaign never completed before). No recipient row, no log
  row and no mail is touched.
\<close>

theorem no_pending_completes:
  assumes "campaign_row cid w = Some c" and "c_user_id c = uid" and "c_status c = Queued"
    and "pending_count cid w = 0"
  shows "fst (sendCampaign e cid uid w) = Inr (0, 0)
       \<and> campaign_row cid (snd (sendCampaign e cid uid w))
           = Some (c\<lparr>c_status := Completed, updated_at := clock w, started_at := Some (clock w)\<rparr>)
       \<and> completed_at (the (campaign_row cid (snd (sendCampaign e cid uid w)))) = completed_at c
       \<and> campaign_recipients (snd (sendCampaign e cid uid w)) = campaign_recipients w
       \<and> smtp_calls (snd (sendCampaign e cid uid w)) = smtp_calls w
       \<and> email_logs (snd (sendCampaign e cid uid w)) = email_logs w"
proof -
  obtain rest where sel: "filter (\<lambda>c. c_id c = cid \<and> c_user_id c = uid) (campaigns w) = c # rest"
    using selected_campaign[OF assms(1,2)] by blast
  have np: "pending_recipients cid w = []"
    using assms(4) by (simp add: pending_recipients_Nil)
  have run: "sendCampaign e cid uid w
           = (Inr (0, 0), updateCampaignStatus cid Completed (Some (clock w)) None w)"
    by (simp add: sendCampaign_def sendCampaign_try_def sel assms(3) np)
  have row: "campaign_row cid (updateCampaignStatus cid Completed (Some (clock w)) None w)
      = Some (c\<lparr>c_status := Completed, updated_at := clock w, started_at := Some (clock w)\<rparr>)"
    by (simp add: campaign_row_updateCampaignStatus assms(1))
  have frame: "campaign_recipients (updateCampaignStatus cid Completed (Some (clock w)) None w) = campaign_recipients w"
     "smtp_calls (updateCampaignStatus cid Completed (Some (clock w)) None w) = smtp_calls w"
     "email_logs (updateCampaignStatus cid Completed (Some (clock w)) None w) = email_logs w"
    by (simp_all add: updateCampaignStatus_def)
  show ?thesis
    unfolding run by (simp add: row frame)
qed


theorem no_pending_completes_witness:
  "campaign_row 4 (example_world Queued []) = Some (example_campaign Queued)
   \<and> c_user_id (example_campaign Queued) = 7 \<and> c_status (example_campaign Queued) = Queued
   \<and> pending_count 4 (example_world Queued []) = 0
   \<and> fst (sendCampaign (example_env VerifyOk) 4 7 (example_world Queued [])) = Inr (0, 0)
   \<and> campaign_row 4 (snd (sendCampaign (example_env VerifyOk) 4 7 (example_world Queued [])))
       = Some (example_campaign Queued\<lparr>c_status := Completed, updated_at := 5000, started_at := Some 5000\<rparr>)
   \<and> completed_at (the (campaign_row 4 (snd (sendCampaign (example_env VerifyOk) 4 7 (example_world Queued []))))) = None"
proof -
  have h1: "campaign_row 4 (example_world Queued []) = Some (example_campaign Queued)"
    and h2: "c_user_id (example_campaign Queued) = 7"
    and h3: "c_status (example_campaign Queued) = Queued"
    and h4: "pending_count 4 (example_world Queued []) = 0"
    by simp_all
  from no_pending_completes [OF h1 h2 h3 h4, of "example_env VerifyOk"] h1 h2 h3 h4
  show ?thesis by simp
qed

lemma transport_failure_run:
  assumes "campaign_row cid w = Some c" and "c_user_id c = uid" and "c_status c = Queued"
    and "0 < pending_count cid w"
    and "connect_transport e uid w = Inl msg"
  shows "sendCampaign e cid uid w
       = (Inl (SmtpConnectionFailed msg),
          updateCampaignStatus cid Failed None None (updateCampaignStatus cid Failed None None w))"
proof -
  obtain rest where sel: "filter (\<lambda>c. c_id c = cid \<and> c_user_id c = uid) (campaigns w) = c # rest"
    using selected_campaign[OF assms(1,2)] by blast
  have np: "pending_recipients cid w \<noteq> []"
    using assms(4) by (simp add: pending_recipients_Nil)
  show ?thesis
    by (simp add: sendCampaign_def sendCampaign_try_def sel assms(3,5) np)
qed

lemma updateCampaignStatus_frame [simp]:
  "campaign_recipients (updateCampaignStatus cid st sa ca w) = campaign_recipients w"
  "smtp_calls (updateCampaignStatus cid st sa ca w) = smtp_calls w"
  "email_logs (updateCampaignStatus cid st sa ca w) = email_logs w"
  "smtp_configs (updateCampaignStatus cid st sa ca w) = smtp_configs w"
  "clock (updateCampaignStatus cid st sa ca w) = clock w"
  by (simp_all add: updateCampaignStatus_def)

lemma pending_count_updateCampaignStatus [simp]:
  "pending_count cid (updateCampaignStatus cid' st sa ca w) = pending_count cid w"
  by (simp add: pending_count_def)

text \<open>
  Claim C8. A queued campaign with pending recipients whose transport cannot be set up
  (\<open>createTransporter\<close> or \<open>verifyTransporter\<close> throws): \<open>sendCampaign\<close> throws, the
  campaign becomes \<open>failed\<close>, its counters keep their values (0 and 0 for a campaign not
  sent before), and no recipient row is modified, so every pending recipient is still
  pending; no mail is handed to the transport and nothing is logged.
\<close>

theorem transport_failure_fails_campaign:
  assumes "campaign_row cid w = Some c" and "c_user_id c = uid" and "c_status c = Queued"
    and "0 < pending_count cid w"
    and "connect_transport e uid w = Inl msg"
  shows "fst (sendCampaign e cid uid w) = Inl (SmtpConnectionFailed msg)
       \<and> campaign_row cid (snd (sendCampaign e cid uid w))
           = Some (c\<lparr>c_status := Failed, updated_at := clock w\<rparr>)
       \<and> sent_count (the (campaign_row cid (snd (sendCampaign e cid uid w)))) = sent_count c
       \<and> failed_count (the (campaign_row cid (snd (sendCampaign e cid uid w)))) = failed_count c
       \<and> campaign_recipients (snd (sendCampaign e cid uid w)) = campaign_recipients w
       \<and> pending_count cid (snd (sendCampaign e cid uid w)) = pending_count cid w
       \<and> smtp_calls (snd (sendCampaign e cid uid w)) = smtp_calls w
       \<and> email_logs (snd (sendCampaign e cid uid w)) = email_logs w"
proof -
  note run = transport_failure_run [OF assms]
  have row: "campaign_row cid
               (updateCampaignStatus cid Failed None None (updateCampaignStatus cid Failed None None w))
           = Some (c\<lparr>c_status := Failed, updated_at := clock w\<rparr>)"
    by (simp add: campaign_row_updateCampaignStatus assms(1))
  show ?thesis
    unfolding run by (simp add: row)
qed

theorem transport_failure_fails_campaign_witness:
  "campaign_row 4 (example_world Queued three_pending) = Some (example_campaign Queued)
   \<and> c_user_id (example_campaign Queued) = 7 \<and> c_status (example_campaign Queued) = Queued
   \<and> 0 < pending_count 4 (example_world Queued three_pending)
   \<and> connect_transport (example_env EAUTH) 7 (example_world Queued three_pending)
       = Inl ''Invalid Gmail credentials. Please check your email and app password.''
   \<and> fst (sendCampaign (example_env EAUTH) 4 7 (example_world Queued three_pending))
       = Inl (SmtpConnectionFailed ''Invalid Gmail credentials. Please check your email and app password.'')
   \<and> campaign_row 4 (snd (sendCampaign (example_env EAUTH) 4 7 (example_world Queued three_pending)))
       = Some (example_campaign Queued\<lparr>c_status := Failed, updated_at := 5000\<rparr>)
   \<and> sent_count (the (campaign_row 4 (snd (sendCampaign (example_env EAUTH) 4 7 (example_world Queued three_pending))))) = 0
   \<and> failed_count (the (campaign_row 4 (snd (sendCampaign (example_env EAUTH) 4 7 (example_world Queued three_pending))))) = 0
   \<and> pending_count 4 (snd (sendCampaign (example_env EAUTH) 4 7 (example_world Queued three_pending))) = 3"
proof -
  have h1: "campaign_row 4 (example_world Queued three_pending) = Some (example_campaign Queued)"
    and h2: "c_user_id (example_campaign Queued) = 7"
    and h3: "c_status (example_campaign Queued) = Queued"
    and h4: "0 < pending_count 4 (example_world Queued three_pending)"
    by simp_all
  note h5 = connect_transport_example(2) [of Queued three_pending]
  from transport_failure_fails_campaign [OF h1 h2 h3 h4 h5] h1 h2 h3 h4 h5
  show ?thesis by simp
qed

lemma not_queued_run:
  assumes "campaign_row cid w = Some c" and "c_user_id c = uid" and "c_status c \<noteq> Queued"
  shows "sendCampaign e cid uid w
       = (Inl (CannotSendStatus (c_status c)), updateCampaignStatus cid Failed None None w)"
proof -
  obtain rest where sel: "filter (\<lambda>c. c_id c = cid \<and> c_user_id c = uid) (campaigns w) = c # rest"
    using selected_campaign[OF assms(1,2)] by blast
  show ?thesis
    by (simp add: sendCampaign_def sendCampaign_try_def sel assms(3))
qed

text \<open>
  Claim C3, evaluated on a completed campaign. \<open>sendCampaign\<close> throws
  \<open>Cannot send campaign with status: completed\<close> inside its \<open>try\<close> block, and the
  \<open>catch\<close> block then sets the campaign to \<open>failed\<close> and rewrites \<open>updated_at\<close>: the campaign
  record does not stay as it was.
\<close>

theorem completed_campaign_resend_marks_failed:
  "campaign_row 4 (example_world Completed []) = Some (example_campaign Completed)
   \<and> fst (sendCampaign (example_env VerifyOk) 4 7 (example_world Completed []))
     = Inl (CannotSendStatus Completed)
   \<and> campaign_row 4 (snd (sendCampaign (example_env VerifyOk) 4 7 (example_world Completed [])))
     = Some (example_campaign Completed\<lparr>c_status := Failed, updated_at := 5000\<rparr>)"
proof -
  have h1: "campaign_row 4 (example_world Completed []) = Some (example_campaign Completed)"
    and h2: "c_user_id (example_campaign Completed) = 7"
    and h3: "c_status (example_campaign Completed) \<noteq> Queued"
    by simp_all
  show ?thesis
    unfolding not_queued_run [OF h1 h2 h3]
    by (simp add: campaign_row_updateCampaignStatus)
qed

subsection \<open>Rounding to the nearest double\<close>










subsection \<open>Progress statistics\<close>






lemma progress_campaign_sel [simp]:
  "recipient_count (progress_campaign tot snt fld) = tot"
  "sent_count (progress_campaign tot snt fld) = snt"
  "failed_count (progress_campaign tot snt fld) = fld"
  by (simp_all add: progress_campaign_def)






subsection \<open>The send route\<close>

lemma campaign_row_id: "campaign_row cid w = Some c \<Longrightarrow> c_id c = cid"
  unfolding campaign_row_def by (auto dest: find_Some_iff[THEN iffD1])

lemma campaign_row_set_queued:
  "campaign_row cid (set_queued cid w)
     = map_option (\<lambda>c. c\<lparr>c_status := Queued, updated_at := clock w\<rparr>) (campaign_row cid w)"
  unfolding campaign_row_def set_queued_def by (simp add: find_map_update)

lemma set_queued_frame [simp]:
  "campaign_recipients (set_queued cid w) = campaign_recipients w"
  "smtp_calls (set_queued cid w) = smtp_calls w"
  "email_logs (set_queued cid w) = email_logs w"
  "smtp_configs (set_queued cid w) = smtp_configs w"
  "clock (set_queued cid w) = clock w"
  by (simp_all add: set_queued_def)

lemma pending_count_set_queued [simp]:
  "pending_count cid (set_queued cid' w) = pending_count cid w"
  by (simp add: pending_count_def)

lemma connect_transport_cong:
  "smtp_configs w' = smtp_configs w \<Longrightarrow> connect_transport e uid w' = connect_transport e uid w"
  by (simp add: connect_transport_def createTransporter_def)

lemma send_route_started:
  assumes "campaign_row cid w = Some c" and "c_user_id c = uid" and "c_status c = Draft"
    and "filter (\<lambda>s. s_user_id s = uid) (smtp_configs w) \<noteq> []"
  shows "send_route (Some cid) uid w
       = (SendingStarted cid Queued (recipient_count c), set_queued cid w, Some cid)"
proof -
  obtain rest where sel: "filter (\<lambda>c. c_id c = cid \<and> c_user_id c = uid) (campaigns w) = c # rest"
    using selected_campaign[OF assms(1,2)] by blast
  show ?thesis
    using assms(3,4) by (simp add: send_route_def sel campaign_row_id[OF assms(1)])
qed

text \<open>
  Claim C7, as the code has it. When the checks of the route pass (the campaign is a
  draft of the caller, who has an SMTP configuration row), the answer is
  \<open>Campaign sending started\<close> whatever the transport does: the dispatcher runs after the
  answer. If the transport then cannot be set up, the failure is not in any response; it
  is recorded as the campaign status \<open>failed\<close>, with no recipient row, log row or mail
  touched, and is seen by polling only.
\<close>

theorem send_route_answers_before_dispatch:
  assumes "campaign_row cid w = Some c" and "c_user_id c = uid" and "c_status c = Draft"
    and "filter (\<lambda>s. s_user_id s = uid) (smtp_configs w) \<noteq> []"
  shows "fst (send_request e (Some cid) uid w) = SendingStarted cid Queued (recipient_count c)
       \<and> (0 < pending_count cid w \<and> connect_transport e uid w = Inl msg \<longrightarrow>
            campaign_row cid (snd (send_request e (Some cid) uid w))
              = Some (c\<lparr>c_status := Failed, updated_at := clock w\<rparr>)
            \<and> campaign_recipients (snd (send_request e (Some cid) uid w)) = campaign_recipients w
            \<and> email_logs (snd (send_request e (Some cid) uid w)) = email_logs w
            \<and> smtp_calls (snd (send_request e (Some cid) uid w)) = smtp_calls w)"
proof (intro conjI impI)
  note route = send_route_started [OF assms]
  show "fst (send_request e (Some cid) uid w) = SendingStarted cid Queued (recipient_count c)"
    by (simp add: send_request_def route)
next
  assume h: "0 < pending_count cid w \<and> connect_transport e uid w = Inl msg"
  note route = send_route_started [OF assms]
  let ?w1 = "set_queued cid w"
  let ?c1 = "c\<lparr>c_status := Queued, updated_at := clock w\<rparr>"
  have row1: "campaign_row cid ?w1 = Some ?c1"
    by (simp add: campaign_row_set_queued assms(1))
  have u1: "c_user_id ?c1 = uid" and s1: "c_status ?c1 = Queued"
    using assms(2) by simp_all
  have p1: "0 < pending_count cid ?w1"
    using h by simp
  have t1: "connect_transport e uid ?w1 = Inl msg"
    using h by (simp add: connect_transport_cong [of ?w1 w])
  note run = transport_failure_run [OF row1 u1 s1 p1 t1]
  have req: "send_request e (Some cid) uid w
           = (SendingStarted cid Queued (recipient_count c),
              updateCampaignStatus cid Failed None None
                (updateCampaignStatus cid Failed None None ?w1))"
    by (simp add: send_request_def route run)
  show "campaign_row cid (snd (send_request e (Some cid) uid w))
              = Some (c\<lparr>c_status := Failed, updated_at := clock w\<rparr>)"
    unfolding req by (simp add: campaign_row_updateCampaignStatus row1)
  show "campaign_recipients (snd (send_request e (Some cid) uid w)) = campaign_recipients w"
    unfolding req by simp
  show "email_logs (snd (send_request e (Some cid) uid w)) = email_logs w"
    unfolding req by simp
  show "smtp_calls (snd (send_request e (Some cid) uid w)) = smtp_calls w"
    unfolding req by simp
qed

lemma smtp_configs_example [simp]:
  "filter (\<lambda>s. s_user_id s = 7) (smtp_configs (example_world st rs)) \<noteq> []"
  by (simp add: example_world_def)

theorem send_route_answers_before_dispatch_witness:
  "campaign_row 4 (example_world Draft three_pending) = Some (example_campaign Draft)
   \<and> c_user_id (example_campaign Draft) = 7 \<and> c_status (example_campaign Draft) = Draft
   \<and> filter (\<lambda>s. s_user_id s = 7) (smtp_configs (example_world Draft three_pending)) \<noteq> []
   \<and> 0 < pending_count 4 (example_world Draft three_pending)
   \<and> connect_transport (example_env EAUTH) 7 (example_world Draft three_pending)
       = Inl ''Invalid Gmail credentials. Please check your email and app password.''
   \<and> fst (send_request (example_env EAUTH) (Some 4) 7 (example_world Draft three_pending))
       = SendingStarted 4 Queued 3
   \<and> campaign_row 4 (snd (send_request (example_env EAUTH) (Some 4) 7 (example_world Draft three_pending)))
       = Some (example_campaign Draft\<lparr>c_status := Failed, updated_at := 5000\<rparr>)"
proof -
  have h1: "campaign_row 4 (example_world Draft three_pending) = Some (example_campaign Draft)"
    and h2: "c_user_id (example_campaign Draft) = 7"
    and h3: "c_status (example_campaign Draft) = Draft"
    and h4: "filter (\<lambda>s. s_user_id s = 7) (smtp_configs (example_world Draft three_pending)) \<noteq> []"
    and h5: "0 < pending_count 4 (example_world Draft three_pending)"
    by simp_all
  note h6 = connect_transport_example(2) [of Draft three_pending]
  from send_route_answers_before_dispatch [OF h1 h2 h3 h4, of "example_env EAUTH"
      "''Invalid Gmail credentials. Please check your email and app password.''"]
    h1 h2 h3 h4 h5 h6
  show ?thesis by simp
qed

text \<open>
  Claim C7 as stated fails: the transport of the example rejects the credentials, and the
  caller is answered \<open>Campaign sending started\<close>, not an error.
\<close>

theorem transport_error_not_in_response_counterexample:
  "connect_transport (example_env EAUTH) 7 (example_world Draft three_pending)
     = Inl ''Invalid Gmail credentials. Please check your email and app password.''
   \<and> fst (send_request (example_env EAUTH) (Some 4) 7 (example_world Draft three_pending))
     = SendingStarted 4 Queued 3"
proof -
  have h1: "campaign_row 4 (example_world Draft three_pending) = Some (example_campaign Draft)"
    and h2: "c_user_id (example_campaign Draft) = 7"
    and h3: "c_status (example_campaign Draft) = Draft"
    and h4: "filter (\<lambda>s. s_user_id s = 7) (smtp_configs (example_world Draft three_pending)) \<noteq> []"
    by simp_all
  show ?thesis
    by (simp add: connect_transport_example send_request_def send_route_started [OF h1 h2 h3 h4])
qed

subsection \<open>What each operation of the loop leaves alone\<close>

lemma sendEmail_frame [simp]:
  "campaigns (snd (sendEmail e t m w)) = campaigns w"
  "campaign_recipients (snd (sendEmail e t m w)) = campaign_recipients w"
  "email_logs (snd (sendEmail e t m w)) = email_logs w"
  "smtp_configs (snd (sendEmail e t m w)) = smtp_configs w"
  "clock (snd (sendEmail e t m w)) = clock w"
  by (simp_all add: sendEmail_def)

lemma logEmail_frame [simp]:
  "campaigns (logEmail u c r a sj st mi em w) = campaigns w"
  "campaign_recipients (logEmail u c r a sj st mi em w) = campaign_recipients w"
  "smtp_configs (logEmail u c r a sj st mi em w) = smtp_configs w"
  "clock (logEmail u c r a sj st mi em w) = clock w"
  "smtp_calls (logEmail u c r a sj st mi em w) = smtp_calls w"
  "length (email_logs (logEmail u c r a sj st mi em w)) = Suc (length (email_logs w))"
  by (simp_all add: logEmail_def)

lemma sleep_frame [simp]:
  "campaigns (sleep ms w) = campaigns w"
  "campaign_recipients (sleep ms w) = campaign_recipients w"
  "smtp_configs (sleep ms w) = smtp_configs w"
  "email_logs (sleep ms w) = email_logs w"
  "smtp_calls (sleep ms w) = smtp_calls w"
  by (simp_all add: sleep_def)

lemma mark_frame [simp]:
  "campaigns (mark_sent i w) = campaigns w"
  "smtp_configs (mark_sent i w) = smtp_configs w"
  "email_logs (mark_sent i w) = email_logs w"
  "clock (mark_sent i w) = clock w"
  "campaigns (mark_failed i msg w) = campaigns w"
  "smtp_configs (mark_failed i msg w) = smtp_configs w"
  "email_logs (mark_failed i msg w) = email_logs w"
  "clock (mark_failed i msg w) = clock w"
  by (simp_all add: mark_sent_def mark_failed_def)

lemma increment_frame [simp]:
  "campaign_recipients (increment_sent c w) = campaign_recipients w"
  "smtp_configs (increment_sent c w) = smtp_configs w"
  "email_logs (increment_sent c w) = email_logs w"
  "clock (increment_sent c w) = clock w"
  "campaign_recipients (increment_failed c w) = campaign_recipients w"
  "smtp_configs (increment_failed c w) = smtp_configs w"
  "email_logs (increment_failed c w) = email_logs w"
  "clock (increment_failed c w) = clock w"
  by (simp_all add: increment_sent_def increment_failed_def)

lemma sendToRecipient_frame [simp]:
  "campaigns (snd (sendToRecipient e r cmp t uid w)) = campaigns w"
  "campaign_recipients (snd (sendToRecipient e r cmp t uid w)) = campaign_recipients w"
  "smtp_configs (snd (sendToRecipient e r cmp t uid w)) = smtp_configs w"
  "clock (snd (sendToRecipient e r cmp t uid w)) = clock w"
proof -
  obtain res w1 where se: "sendEmail e t (recipient_mail r cmp) w = (res, w1)"
    by (cases "sendEmail e t (recipient_mail r cmp) w")
  have fr: "campaigns w1 = campaigns w" "campaign_recipients w1 = campaign_recipients w"
    "smtp_configs w1 = smtp_configs w" "clock w1 = clock w"
    using sendEmail_frame [of e t "recipient_mail r cmp" w] by (simp_all add: se)
  show "campaigns (snd (sendToRecipient e r cmp t uid w)) = campaigns w"
    "campaign_recipients (snd (sendToRecipient e r cmp t uid w)) = campaign_recipients w"
    "smtp_configs (snd (sendToRecipient e r cmp t uid w)) = smtp_configs w"
    "clock (snd (sendToRecipient e r cmp t uid w)) = clock w"
    by (cases res; simp add: sendToRecipient_def se fr)+
qed

lemma sendToRecipient_logs:
  "length (email_logs (snd (sendToRecipient e r cmp t uid w)))
     = (case fst (sendToRecipient e r cmp t uid w) of
          Inl _ \<Rightarrow> length (email_logs w) | Inr _ \<Rightarrow> Suc (length (email_logs w)))"
proof -
  obtain res w1 where se: "sendEmail e t (recipient_mail r cmp) w = (res, w1)"
    by (cases "sendEmail e t (recipient_mail r cmp) w")
  have fr: "email_logs w1 = email_logs w"
    using sendEmail_frame(3) [of e t "recipient_mail r cmp" w] by (simp add: se)
  show ?thesis
    by (cases res; simp add: sendToRecipient_def se fr)
qed

subsection \<open>One iteration of the send loop\<close>

lemma iteration_cases:
  obtains (sent) messageId w1 where
      "sendToRecipient e r cmp t uid w = (Inr messageId, w1)"
      "iteration e cid uid cmp t r (s, f, w)
         = (s + 1, f, sleep 1000 (increment_sent cid (mark_sent (r_id r) w1)))"
  | (failed) msg w1 where
      "sendToRecipient e r cmp t uid w = (Inl msg, w1)"
      "iteration e cid uid cmp t r (s, f, w)
         = (s, f + 1,
            sleep 1000
              (logEmail uid cid (r_id r) (r_email r) (c_subject cmp) SendFailed None (Some msg)
                 (increment_failed cid (mark_failed (r_id r) msg w1))))"
proof -
  obtain res w1 where st: "sendToRecipient e r cmp t uid w = (res, w1)"
    by (cases "sendToRecipient e r cmp t uid w")
  show thesis
  proof (cases res)
    case (Inl msg)
    with st show ?thesis by (intro failed [of msg w1]) (simp_all add: iteration_def)
  next
    case (Inr messageId)
    with st show ?thesis by (intro sent [of messageId w1]) (simp_all add: iteration_def)
  qed
qed

lemma sendToRecipient_result_frame:
  assumes "sendToRecipient e r cmp t uid w = (res, w1)"
  shows "campaigns w1 = campaigns w" "campaign_recipients w1 = campaign_recipients w"
    "smtp_configs w1 = smtp_configs w" "clock w1 = clock w"
    "length (email_logs w1) = (case res of Inl _ \<Rightarrow> length (email_logs w)
                                 | Inr _ \<Rightarrow> Suc (length (email_logs w)))"
  using sendToRecipient_frame [of e r cmp t uid w] sendToRecipient_logs [of e r cmp t uid w]
  by (simp_all add: assms)

lemma iteration_counters:
  assumes "iteration e cid uid cmp t r (s, f, w) = (s', f', w')"
  shows "s' + f' = s + f + 1" "s \<le> s'" "f \<le> f'"
  using assms by (cases rule: iteration_cases [of e r cmp t uid w cid s f]; simp)+

lemma iteration_recipients:
  assumes "iteration e cid uid cmp t r (s, f, w) = (s', f', w')"
  shows "\<exists>g. (\<forall>x. r_id (g x) = r_id x \<and> r_campaign_id (g x) = r_campaign_id x
                  \<and> r_status (g x) = (if s' = s + 1 then Sent else SendFailed))
             \<and> campaign_recipients w'
                 = map (\<lambda>x. if r_id x = r_id r then g x else x) (campaign_recipients w)"
proof (cases rule: iteration_cases [of e r cmp t uid w cid s f])
  case (sent messageId w1)
  note fr = sendToRecipient_result_frame [OF sent(1)]
  have "campaign_recipients w'
      = map (\<lambda>x. if r_id x = r_id r then x\<lparr>r_status := Sent, sent_at := Some (clock w)\<rparr> else x)
          (campaign_recipients w)"
    using assms sent(2) by (auto simp: mark_sent_def fr)
  moreover have "s' = s + 1" using assms sent(2) by simp
  ultimately show ?thesis
    by (intro exI [of _ "\<lambda>x. x\<lparr>r_status := Sent, sent_at := Some (clock w)\<rparr>"]) simp
next
  case (failed msg w1)
  note fr = sendToRecipient_result_frame [OF failed(1)]
  have "campaign_recipients w'
      = map (\<lambda>x. if r_id x = r_id r then x\<lparr>r_status := SendFailed, error_message := Some msg\<rparr> else x)
          (campaign_recipients w)"
    using assms failed(2) by (auto simp: mark_failed_def fr)
  moreover have "s' \<noteq> s + 1" using assms failed(2) by simp
  ultimately show ?thesis
    by (intro exI [of _ "\<lambda>x. x\<lparr>r_status := SendFailed, error_message := Some msg\<rparr>"]) simp
qed

lemma iteration_campaign_row:
  assumes "iteration e cid uid cmp t r (s, f, w) = (s', f', w')"
    and "campaign_row cid w = Some c"
  shows "\<exists>c'. campaign_row cid w' = Some c'
            \<and> sent_count c' = sent_count c + int (s' - s)
            \<and> failed_count c' = failed_count c + int (f' - f)
            \<and> recipient_count c' = recipient_count c \<and> c_status c' = c_status c
            \<and> c_user_id c' = c_user_id c
            \<and> started_at c' = started_at c \<and> completed_at c' = completed_at c"
proof (cases rule: iteration_cases [of e r cmp t uid w cid s f])
  case (sent messageId w1)
  note fr = sendToRecipient_result_frame [OF sent(1)]
  have "campaigns w'
      = map (\<lambda>c. if c_id c = cid then c\<lparr>sent_count := sent_count c + 1, updated_at := clock w\<rparr> else c)
          (campaigns w)"
    using assms(1) sent(2) by (auto simp: increment_sent_def fr)
  then have "campaign_row cid w'
      = Some (c\<lparr>sent_count := sent_count c + 1, updated_at := clock w\<rparr>)"
    using assms(2) by (simp add: campaign_row_def find_map_update)
  moreover have "s' = s + 1" "f' = f" using assms(1) sent(2) by simp_all
  ultimately show ?thesis by simp
next
  case (failed msg w1)
  note fr = sendToRecipient_result_frame [OF failed(1)]
  have "campaigns w'
      = map (\<lambda>c. if c_id c = cid then c\<lparr>failed_count := failed_count c + 1, updated_at := clock w\<rparr> else c)
          (campaigns w)"
    using assms(1) failed(2) by (auto simp: increment_failed_def fr)
  then have "campaign_row cid w'
      = Some (c\<lparr>failed_count := failed_count c + 1, updated_at := clock w\<rparr>)"
    using assms(2) by (simp add: campaign_row_def find_map_update)
  moreover have "s' = s" "f' = f + 1" using assms(1) failed(2) by simp_all
  ultimately show ?thesis by simp
qed

lemma iteration_logs:
  assumes "iteration e cid uid cmp t r (s, f, w) = (s', f', w')"
  shows "length (email_logs w') = Suc (length (email_logs w))"
proof (cases rule: iteration_cases [of e r cmp t uid w cid s f])
  case (sent messageId w1)
  note fr = sendToRecipient_result_frame [OF sent(1)]
  show ?thesis using assms sent(2) fr(5) by auto
next
  case (failed msg w1)
  note fr = sendToRecipient_result_frame [OF failed(1)]
  show ?thesis using assms failed(2) fr(5) by auto
qed

subsection \<open>Updating one row of the recipients table\<close>

lemma unchanged_outside_refl: "unchanged_outside ids xs xs"
  by (simp add: unchanged_outside_def list_all2_same)

lemma unchanged_outside_update:
  assumes "\<And>x. r_id (g x) = r_id x"
  shows "unchanged_outside {i} xs (map (\<lambda>x. if r_id x = i then g x else x) xs)"
  using assms by (simp add: unchanged_outside_def list_all2_map2 list_all2_same)

lemma unchanged_outside_trans:
  assumes "unchanged_outside A xs ys" and "unchanged_outside B ys zs"
  shows "unchanged_outside (A \<union> B) xs zs"
  using assms unfolding unchanged_outside_def
  by (rule list_all2_trans [rotated]) auto

lemma same_id_same_row:
  assumes "distinct (map r_id xs)" and "x \<in> set xs" and "y \<in> set xs" and "r_id x = r_id y"
  shows "x = y"
  using assms by (meson distinct_map inj_on_eq_iff)

lemma count_after_update:
  assumes "distinct (map r_id xs)" and "y \<in> set xs" and "\<And>x. r_id (g x) = r_id x"
  shows "length (filter P (map (\<lambda>x. if r_id x = r_id y then g x else x) xs))
           + (if P y then 1 else 0)
       = length (filter P xs) + (if P (g y) then 1 else 0)"
  using assms(1,2)
proof (induction xs)
  case Nil
  then show ?case by simp
next
  case (Cons a xs)
  show ?case
  proof (cases "a = y")
    case True
    have "r_id y \<notin> r_id ` set xs"
      using Cons.prems(1) True by simp
    then have "\<And>x. x \<in> set xs \<Longrightarrow> r_id x \<noteq> r_id y"
      by (metis imageI)
    then have "map (\<lambda>x. if r_id x = r_id y then g x else x) xs = xs"
      by (intro map_idI) simp
    then show ?thesis using True by simp
  next
    case False
    then have in_tl: "y \<in> set xs" using Cons.prems(2) by simp
    have "r_id a \<noteq> r_id y"
      using Cons.prems(1) in_tl by auto
    then show ?thesis
      using Cons.IH [OF _ in_tl] Cons.prems(1) by simp
  qed
qed

lemma loop_ready_step:
  assumes "loop_ready cid (r # rest) w"
    and "iteration e cid uid cmp t r (s, f, w) = (s', f', w')"
  shows "loop_ready cid rest w'"
proof -
  obtain g where g: "\<And>x. r_id (g x) = r_id x"
    and tab: "campaign_recipients w'
                = map (\<lambda>x. if r_id x = r_id r then g x else x) (campaign_recipients w)"
    using iteration_recipients [OF assms(2)] by blast
  have ids: "map r_id (campaign_recipients w') = map r_id (campaign_recipients w)"
    unfolding tab by (simp add: g)
  have d1: "distinct (map r_id (campaign_recipients w'))"
    using assms(1) by (simp add: ids loop_ready_def)
  have d2: "distinct (map r_id rest)"
    using assms(1) by (simp add: loop_ready_def)
  have rows: "r' \<in> set (campaign_recipients w') \<and> r_campaign_id r' = cid \<and> r_status r' = Pending"
    if "r' \<in> set rest" for r'
  proof -
    have old: "r' \<in> set (campaign_recipients w)" "r_campaign_id r' = cid" "r_status r' = Pending"
      using assms(1) that by (simp_all add: loop_ready_def)
    have "r_id r \<notin> r_id ` set rest"
      using assms(1) by (simp add: loop_ready_def)
    then have "r_id r' \<noteq> r_id r"
      using that by (metis imageI)
    then have same: "(if r_id r' = r_id r then g r' else r') = r'" by simp
    have "(if r_id r' = r_id r then g r' else r')
            \<in> (\<lambda>x. if r_id x = r_id r then g x else x) ` set (campaign_recipients w)"
      using old(1) by (rule imageI)
    then have "r' \<in> set (campaign_recipients w')"
      unfolding tab same by simp
    with old show ?thesis by simp
  qed
  show ?thesis
    by (simp add: loop_ready_def d1 d2 rows)
qed

lemma status_count_step:
  assumes "loop_ready cid (r # rest) w"
    and "iteration e cid uid cmp t r (s, f, w) = (s', f', w')"
  shows "status_count cid Pending w' + 1 = status_count cid Pending w"
    and "status_count cid Sent w' = status_count cid Sent w + (s' - s)"
    and "status_count cid SendFailed w' = status_count cid SendFailed w + (f' - f)"
proof -
  obtain g where g: "\<And>x. r_id (g x) = r_id x" "\<And>x. r_campaign_id (g x) = r_campaign_id x"
      "\<And>x. r_status (g x) = (if s' = s + 1 then Sent else SendFailed)"
    and tab: "campaign_recipients w'
                = map (\<lambda>x. if r_id x = r_id r then g x else x) (campaign_recipients w)"
    using iteration_recipients [OF assms(2)] by blast
  have d: "distinct (map r_id (campaign_recipients w))"
    and r: "r \<in> set (campaign_recipients w)" "r_campaign_id r = cid" "r_status r = Pending"
    using assms(1) by (simp_all add: loop_ready_def)
  have cnt: "length (filter P (campaign_recipients w')) + (if P r then 1 else 0)
       = length (filter P (campaign_recipients w)) + (if P (g r) then 1 else 0)" for P
    unfolding tab by (rule count_after_update [OF d r(1) g(1)])
  note ctr = iteration_counters [OF assms(2)]
  show "status_count cid Pending w' + 1 = status_count cid Pending w"
    using cnt [of "\<lambda>x. r_campaign_id x = cid \<and> r_status x = Pending"] r g(2,3)
    by (simp add: status_count_def)
  show "status_count cid Sent w' = status_count cid Sent w + (s' - s)"
    using cnt [of "\<lambda>x. r_campaign_id x = cid \<and> r_status x = Sent"] r g(2,3) ctr
    by (simp add: status_count_def split: if_splits)
  show "status_count cid SendFailed w' = status_count cid SendFailed w + (f' - f)"
    using cnt [of "\<lambda>x. r_campaign_id x = cid \<and> r_status x = SendFailed"] r g(2,3) ctr
    by (simp add: status_count_def split: if_splits)
qed

subsection \<open>The send loop\<close>

lemma send_loop_counters:
  assumes "send_loop e cid uid cmp t rs (s, f, w) = (s', f', w')"
  shows "s' + f' = s + f + length rs \<and> s \<le> s' \<and> f \<le> f'"
  using assms
proof (induction rs arbitrary: s f w)
  case Nil
  then show ?case by simp
next
  case (Cons r rest)
  obtain s1 f1 w1 where it: "iteration e cid uid cmp t r (s, f, w) = (s1, f1, w1)"
    by (cases "iteration e cid uid cmp t r (s, f, w)")
  have "send_loop e cid uid cmp t rest (s1, f1, w1) = (s', f', w')"
    using Cons.prems by (simp add: it)
  from Cons.IH [OF this] iteration_counters [OF it] show ?case by simp
qed

lemma send_loop_campaign_row:
  assumes "send_loop e cid uid cmp t rs (s, f, w) = (s', f', w')"
    and "campaign_row cid w = Some c"
  shows "\<exists>c'. campaign_row cid w' = Some c'
            \<and> sent_count c' = sent_count c + int (s' - s)
            \<and> failed_count c' = failed_count c + int (f' - f)
            \<and> recipient_count c' = recipient_count c \<and> c_status c' = c_status c
            \<and> c_user_id c' = c_user_id c
            \<and> started_at c' = started_at c \<and> completed_at c' = completed_at c"
  using assms
proof (induction rs arbitrary: s f w c)
  case Nil
  then show ?case by simp
next
  case (Cons r rest)
  obtain s1 f1 w1 where it: "iteration e cid uid cmp t r (s, f, w) = (s1, f1, w1)"
    by (cases "iteration e cid uid cmp t r (s, f, w)")
  have loop: "send_loop e cid uid cmp t rest (s1, f1, w1) = (s', f', w')"
    using Cons.prems(1) by (simp add: it)
  obtain c1 where c1: "campaign_row cid w1 = Some c1"
      "sent_count c1 = sent_count c + int (s1 - s)"
      "failed_count c1 = failed_count c + int (f1 - f)"
      "recipient_count c1 = recipient_count c" "c_status c1 = c_status c"
      "c_user_id c1 = c_user_id c"
      "started_at c1 = started_at c" "completed_at c1 = completed_at c"
    using iteration_campaign_row [OF it Cons.prems(2)] by blast
  obtain c' where c': "campaign_row cid w' = Some c'"
      "sent_count c' = sent_count c1 + int (s' - s1)"
      "failed_count c' = failed_count c1 + int (f' - f1)"
      "recipient_count c' = recipient_count c1" "c_status c' = c_status c1"
      "c_user_id c' = c_user_id c1"
      "started_at c' = started_at c1" "completed_at c' = completed_at c1"
    using Cons.IH [OF loop c1(1)] by blast
  have mono: "s \<le> s1" "f \<le> f1" "s1 \<le> s'" "f1 \<le> f'"
    using iteration_counters [OF it] send_loop_counters [OF loop] by simp_all
  have "sent_count c' = sent_count c + int (s' - s)"
    and "failed_count c' = failed_count c + int (f' - f)"
    using c'(2,3) c1(2,3) mono by simp_all
  with c'(1,4-8) c1(4-8) show ?case by simp
qed

lemma send_loop_logs:
  assumes "send_loop e cid uid cmp t rs (s, f, w) = (s', f', w')"
  shows "length (email_logs w') = length (email_logs w) + length rs"
  using assms
proof (induction rs arbitrary: s f w)
  case Nil
  then show ?case by simp
next
  case (Cons r rest)
  obtain s1 f1 w1 where it: "iteration e cid uid cmp t r (s, f, w) = (s1, f1, w1)"
    by (cases "iteration e cid uid cmp t r (s, f, w)")
  have "send_loop e cid uid cmp t rest (s1, f1, w1) = (s', f', w')"
    using Cons.prems by (simp add: it)
  from Cons.IH [OF this] iteration_logs [OF it] show ?case by simp
qed

lemma send_loop_unchanged:
  assumes "send_loop e cid uid cmp t rs (s, f, w) = (s', f', w')"
  shows "unchanged_outside (r_id ` set rs) (campaign_recipients w) (campaign_recipients w')"
  using assms
proof (induction rs arbitrary: s f w)
  case Nil
  then show ?case by (simp add: unchanged_outside_refl)
next
  case (Cons r rest)
  obtain s1 f1 w1 where it: "iteration e cid uid cmp t r (s, f, w) = (s1, f1, w1)"
    by (cases "iteration e cid uid cmp t r (s, f, w)")
  have loop: "send_loop e cid uid cmp t rest (s1, f1, w1) = (s', f', w')"
    using Cons.prems by (simp add: it)
  obtain g where g: "\<And>x. r_id (g x) = r_id x"
    and tab: "campaign_recipients w1
                = map (\<lambda>x. if r_id x = r_id r then g x else x) (campaign_recipients w)"
    using iteration_recipients [OF it] by blast
  have one: "unchanged_outside {r_id r} (campaign_recipients w) (campaign_recipients w1)"
    unfolding tab by (rule unchanged_outside_update [OF g])
  have "unchanged_outside ({r_id r} \<union> r_id ` set rest)
          (campaign_recipients w) (campaign_recipients w')"
    using one Cons.IH [OF loop] by (rule unchanged_outside_trans)
  then show ?case by simp
qed

lemma send_loop_status_counts:
  assumes "loop_ready cid rs w"
    and "send_loop e cid uid cmp t rs (s, f, w) = (s', f', w')"
  shows "status_count cid Pending w' + length rs = status_count cid Pending w
       \<and> status_count cid Sent w' = status_count cid Sent w + (s' - s)
       \<and> status_count cid SendFailed w' = status_count cid SendFailed w + (f' - f)"
  using assms
proof (induction rs arbitrary: s f w)
  case Nil
  then show ?case by simp
next
  case (Cons r rest)
  obtain s1 f1 w1 where it: "iteration e cid uid cmp t r (s, f, w) = (s1, f1, w1)"
    by (cases "iteration e cid uid cmp t r (s, f, w)")
  have loop: "send_loop e cid uid cmp t rest (s1, f1, w1) = (s', f', w')"
    using Cons.prems(2) by (simp add: it)
  note ready = loop_ready_step [OF Cons.prems(1) it]
  note step = status_count_step [OF Cons.prems(1) it]
  have mono: "s \<le> s1" "f \<le> f1" "s1 \<le> s'" "f1 \<le> f'"
    using iteration_counters [OF it] send_loop_counters [OF loop] by simp_all
  from Cons.IH [OF ready loop] step mono show ?case by simp
qed

lemma send_loop_append:
  "send_loop e cid uid cmp t (xs @ ys) st
     = send_loop e cid uid cmp t ys (send_loop e cid uid cmp t xs st)"
  by (induction xs arbitrary: st) simp_all

subsection \<open>The recipients selected by the dispatcher\<close>

lemma pending_count_status_count: "pending_count cid w = status_count cid Pending w"
  by (simp add: pending_count_def status_count_def)

lemma length_pending_recipients: "length (pending_recipients cid w) = pending_count cid w"
  by (simp add: pending_recipients_def pending_count_def)

lemma set_pending_recipients:
  "set (pending_recipients cid w)
     = {r \<in> set (campaign_recipients w). r_campaign_id r = cid \<and> r_status r = Pending}"
  by (simp add: pending_recipients_def)

lemma distinct_pending_recipients:
  assumes "distinct (map r_id (campaign_recipients w))"
  shows "distinct (map r_id (pending_recipients cid w))"
proof -
  let ?ys = "filter (\<lambda>r. r_campaign_id r = cid \<and> r_status r = Pending) (campaign_recipients w)"
  have "distinct (map r_id ?ys)"
    using assms by (rule distinct_map_filter)
  then have "distinct ?ys" and "inj_on r_id (set ?ys)"
    by (simp_all add: distinct_map)
  then have "distinct (sort_key r_id ?ys)" and "inj_on r_id (set (sort_key r_id ?ys))"
    by simp_all
  then show ?thesis
    unfolding pending_recipients_def by (simp only: distinct_map simp_thms)
qed

lemma loop_ready_pending:
  assumes "distinct (map r_id (campaign_recipients w))"
    and "campaign_recipients w0 = campaign_recipients w"
  shows "loop_ready cid (take k (pending_recipients cid w)) w0"
proof -
  have "distinct (map r_id (take k (pending_recipients cid w)))"
    using distinct_pending_recipients [OF assms(1), of cid]
    by (simp add: take_map [symmetric] distinct_take)
  moreover have "r \<in> set (campaign_recipients w) \<and> r_campaign_id r = cid \<and> r_status r = Pending"
    if "r \<in> set (take k (pending_recipients cid w))" for r
  proof -
    have "r \<in> set (pending_recipients cid w)" using that by (rule in_set_takeD)
    then show ?thesis by (simp add: set_pending_recipients)
  qed
  ultimately show ?thesis
    using assms by (simp add: loop_ready_def)
qed

lemma status_count_updateCampaignStatus [simp]:
  "status_count cid st (updateCampaignStatus cid' st' sa ca w) = status_count cid st w"
  by (simp add: status_count_def)

subsection \<open>The state of the loop after k iterations\<close>

lemma loop_state_facts:
  assumes row: "campaign_row cid w = Some c"
    and dist: "distinct (map r_id (campaign_recipients w))"
    and k: "k \<le> pending_count cid w"
    and st: "loop_state e cid uid cmp t w k = (s, f, w')"
  shows "\<exists>c'. campaign_row cid w' = Some c'
            \<and> s + f = k
            \<and> pending_count cid w' + k = pending_count cid w
            \<and> status_count cid Sent w' = status_count cid Sent w + s
            \<and> status_count cid SendFailed w' = status_count cid SendFailed w + f
            \<and> sent_count c' = sent_count c + int s
            \<and> failed_count c' = failed_count c + int f
            \<and> recipient_count c' = recipient_count c
            \<and> c_status c' = Sending
            \<and> length (email_logs w') = length (email_logs w) + k"
proof -
  let ?w0 = "updateCampaignStatus cid Sending (Some (clock w)) None w"
  let ?rs = "take k (pending_recipients cid w)"
  have loop: "send_loop e cid uid cmp t ?rs (0, 0, ?w0) = (s, f, w')"
    using st by (simp add: loop_state_def)
  have len: "length ?rs = k"
    using k by (simp add: length_pending_recipients)
  have ready: "loop_ready cid ?rs ?w0"
    by (rule loop_ready_pending [OF dist]) simp
  have row0: "campaign_row cid ?w0
            = Some (c\<lparr>c_status := Sending, updated_at := clock w, started_at := Some (clock w)\<rparr>)"
    by (simp add: campaign_row_updateCampaignStatus row)
  obtain c' where c': "campaign_row cid w' = Some c'"
      "sent_count c' = sent_count c + int s" "failed_count c' = failed_count c + int f"
      "recipient_count c' = recipient_count c" "c_status c' = Sending"
    using send_loop_campaign_row [OF loop row0] by auto
  note cnt = send_loop_status_counts [OF ready loop]
  note ctr = send_loop_counters [OF loop]
  note logs = send_loop_logs [OF loop]
  show ?thesis
    using c' cnt ctr logs len by (simp add: pending_count_status_count)
qed

subsection \<open>The dispatch run\<close>

lemma example_distinct [simp]:
  "distinct (map r_id (campaign_recipients (example_world st three_pending)))"
  by (simp add: example_world_def three_pending_def example_recipient_def)

lemma status_count_example [simp]:
  "status_count 4 Sent (example_world st three_pending) = 0"
  "status_count 4 SendFailed (example_world st three_pending) = 0"
  by (simp_all add: status_count_def example_world_def three_pending_def example_recipient_def)

text \<open>
  Claim C9. Take a campaign whose counters agree with its recipients when the loop
  starts: \<open>sent_count + failed_count + pending = recipient_count\<close>, ids being unique in
  the recipients table. After any number \<open>k\<close> of iterations of the send loop the same
  equation holds; \<open>k\<close> recipients have left \<open>pending\<close>, the local counters add up to
  \<open>k\<close>, the campaign counters have grown by the local counters, and so has the number
  of recipients in status \<open>sent\<close> and in status \<open>failed\<close>. The pending number that
  \<open>calculateProgress\<close> derives from the campaign row is the number of pending
  recipients, and its four counts add up to the total.
\<close>

theorem send_loop_keeps_counts_consistent:
  assumes "campaign_row cid w = Some c"
    and "distinct (map r_id (campaign_recipients w))"
    and "sent_count c + failed_count c + int (pending_count cid w) = recipient_count c"
    and "k \<le> pending_count cid w"
  shows "case loop_state e cid uid cmp t w k of
           (s, f, w') \<Rightarrow>
             (\<exists>c'. campaign_row cid w' = Some c'
                \<and> sent_count c' + failed_count c' + int (pending_count cid w')
                    = recipient_count c'
                \<and> s + f = k
                \<and> pending_count cid w' + k = pending_count cid w
                \<and> sent_count c' = sent_count c + int s
                \<and> failed_count c' = failed_count c + int f
                \<and> status_count cid Sent w' = status_count cid Sent w + s
                \<and> status_count cid SendFailed w' = status_count cid SendFailed w + f
                \<and> p_pending (calculateProgress c') = int (pending_count cid w')
                \<and> p_sent (calculateProgress c') + p_failed (calculateProgress c')
                      + p_pending (calculateProgress c')
                    = total_recipients (calculateProgress c'))"
proof -
  obtain s f w' where st: "loop_state e cid uid cmp t w k = (s, f, w')"
    by (cases "loop_state e cid uid cmp t w k")
  obtain c' where c': "campaign_row cid w' = Some c'" "s + f = k"
      "pending_count cid w' + k = pending_count cid w"
      "status_count cid Sent w' = status_count cid Sent w + s"
      "status_count cid SendFailed w' = status_count cid SendFailed w + f"
      "sent_count c' = sent_count c + int s" "failed_count c' = failed_count c + int f"
      "recipient_count c' = recipient_count c"
    using loop_state_facts [OF assms(1,2,4) st] by blast
  have inv: "sent_count c' + failed_count c' + int (pending_count cid w') = recipient_count c'"
    using c'(2,3,6,7,8) assms(3) by simp
  have prog: "p_pending (calculateProgress c') = int (pending_count cid w')"
    "p_sent (calculateProgress c') + p_failed (calculateProgress c')
       + p_pending (calculateProgress c') = total_recipients (calculateProgress c')"
    using inv by (simp_all add: calculateProgress_def Let_def)
  show ?thesis
    unfolding st using c' inv prog by simp
qed

theorem send_loop_keeps_counts_consistent_witness:
  "campaign_row 4 (example_world Queued three_pending) = Some (example_campaign Queued)
   \<and> distinct (map r_id (campaign_recipients (example_world Queued three_pending)))
   \<and> sent_count (example_campaign Queued) + failed_count (example_campaign Queued)
        + int (pending_count 4 (example_world Queued three_pending))
      = recipient_count (example_campaign Queued)
   \<and> (2::nat) \<le> pending_count 4 (example_world Queued three_pending)
   \<and> (case loop_state (example_env VerifyOk) 4 7 (example_campaign Queued) example_transporter
              (example_world Queued three_pending) 2 of
         (s, f, w') \<Rightarrow>
           (\<exists>c'. campaign_row 4 w' = Some c'
              \<and> sent_count c' + failed_count c' + int (pending_count 4 w') = recipient_count c'
              \<and> s + f = 2
              \<and> pending_count 4 w' + 2 = 3
              \<and> sent_count c' = int s
              \<and> failed_count c' = int f
              \<and> status_count 4 Sent w' = s
              \<and> status_count 4 SendFailed w' = f
              \<and> p_pending (calculateProgress c') = int (pending_count 4 w')
              \<and> p_sent (calculateProgress c') + p_failed (calculateProgress c')
                    + p_pending (calculateProgress c')
                  = total_recipients (calculateProgress c')))"
proof -
  have h1: "campaign_row 4 (example_world Queued three_pending) = Some (example_campaign Queued)"
    and h2: "distinct (map r_id (campaign_recipients (example_world Queued three_pending)))"
    and h3: "sent_count (example_campaign Queued) + failed_count (example_campaign Queued)
        + int (pending_count 4 (example_world Queued three_pending))
      = recipient_count (example_campaign Queued)"
    and h4: "(2::nat) \<le> pending_count 4 (example_world Queued three_pending)"
    by simp_all
  from send_loop_keeps_counts_consistent [OF h1 h2 h3 h4, of "example_env VerifyOk" 7
      "example_campaign Queued" example_transporter] h1 h2 h3 h4
  show ?thesis by simp
qed

lemma sendCampaign_loop_run:
  assumes "campaign_row cid w = Some c" and "c_user_id c = uid" and "c_status c = Queued"
    and "0 < pending_count cid w"
    and "connect_transport e uid w = Inr t"
    and "loop_state e cid uid c t w (pending_count cid w) = (s, f, w')"
  shows "sendCampaign e cid uid w
       = (Inr (s, f), updateCampaignStatus cid Completed None (Some (clock w')) w')"
proof -
  obtain rest where sel: "filter (\<lambda>c. c_id c = cid \<and> c_user_id c = uid) (campaigns w) = c # rest"
    using selected_campaign[OF assms(1,2)] by blast
  have np: "pending_recipients cid w \<noteq> []"
    using assms(4) by (simp add: pending_recipients_Nil)
  have loop: "send_loop e cid uid c t (pending_recipients cid w)
                (0, 0, updateCampaignStatus cid Sending (Some (clock w)) None w) = (s, f, w')"
    using assms(6) by (simp add: loop_state_def length_pending_recipients [symmetric])
  show ?thesis
    by (simp add: sendCampaign_def sendCampaign_try_def sel assms(3,5) np loop)
qed

text \<open>
  Claim C1. A queued campaign with \<open>N\<close> pending recipients and a transport that can be
  set up, ids being unique in the recipients table: whatever the outcome of each send,
  \<open>sendCampaign\<close> returns counters \<open>sent\<close> and \<open>failed\<close> with \<open>sent + failed = N\<close>; the
  campaign counters have grown by them, as have the numbers of recipients in status
  \<open>sent\<close> and \<open>failed\<close>; no recipient of the campaign is pending any more; the campaign
  is \<open>completed\<close>; and the send log has \<open>N\<close> new entries.
\<close>

theorem dispatch_settles_every_pending_recipient:
  assumes "campaign_row cid w = Some c" and "c_user_id c = uid" and "c_status c = Queued"
    and "distinct (map r_id (campaign_recipients w))"
    and "connect_transport e uid w = Inr t"
  shows "\<exists>s f c'. fst (sendCampaign e cid uid w) = Inr (s, f)
           \<and> s + f = pending_count cid w
           \<and> pending_count cid (snd (sendCampaign e cid uid w)) = 0
           \<and> campaign_row cid (snd (sendCampaign e cid uid w)) = Some c'
           \<and> c_status c' = Completed
           \<and> sent_count c' = sent_count c + int s
           \<and> failed_count c' = failed_count c + int f
           \<and> status_count cid Sent (snd (sendCampaign e cid uid w))
               = status_count cid Sent w + s
           \<and> status_count cid SendFailed (snd (sendCampaign e cid uid w))
               = status_count cid SendFailed w + f
           \<and> length (email_logs (snd (sendCampaign e cid uid w)))
               = length (email_logs w) + pending_count cid w"
proof (cases "pending_count cid w = 0")
  case True
  obtain rest where sel: "filter (\<lambda>c. c_id c = cid \<and> c_user_id c = uid) (campaigns w) = c # rest"
    using selected_campaign[OF assms(1,2)] by blast
  have np: "pending_recipients cid w = []"
    using True by (simp add: pending_recipients_Nil)
  have run: "sendCampaign e cid uid w
           = (Inr (0, 0), updateCampaignStatus cid Completed (Some (clock w)) None w)"
    by (simp add: sendCampaign_def sendCampaign_try_def sel assms(3) np)
  show ?thesis
    unfolding run using True
    by (simp add: campaign_row_updateCampaignStatus assms(1))
next
  case False
  then have pos: "0 < pending_count cid w" by simp
  obtain s f w' where st: "loop_state e cid uid c t w (pending_count cid w) = (s, f, w')"
    by (cases "loop_state e cid uid c t w (pending_count cid w)")
  note run = sendCampaign_loop_run [OF assms(1,2,3) pos assms(5) st]
  obtain c1 where c1: "campaign_row cid w' = Some c1" "s + f = pending_count cid w"
      "pending_count cid w' + pending_count cid w = pending_count cid w"
      "status_count cid Sent w' = status_count cid Sent w + s"
      "status_count cid SendFailed w' = status_count cid SendFailed w + f"
      "sent_count c1 = sent_count c + int s" "failed_count c1 = failed_count c + int f"
      "length (email_logs w') = length (email_logs w) + pending_count cid w"
    using loop_state_facts [OF assms(1,4) order_refl st] by blast
  show ?thesis
    unfolding run using c1
    by (simp add: campaign_row_updateCampaignStatus)
qed

text \<open>
  The example run: three pending recipients, the transport rejecting the second.
\<close>

lemma example_mail:
  "recipient_mail (example_recipient i addr st) (example_campaign cst)
     = \<lparr>mail_to = addr, mail_subject = ''Hello Ana'',
        mail_text = ''Dear Ana, your code is X1.'', mail_html = None\<rparr>"
  by (simp add: recipient_mail_def example_recipient_def example_campaign_def spread_def
        replaceTemplateVariables_def token_def or_empty_def match_placeholder_def Let_def)

lemma example_run:
  "fst (sendCampaign (example_env VerifyOk) 4 7 (example_world Queued three_pending)) = Inr (2, 1)"
proof -
  have h1: "campaign_row 4 (example_world Queued three_pending) = Some (example_campaign Queued)"
    and h2: "c_user_id (example_campaign Queued) = 7"
    and h3: "c_status (example_campaign Queued) = Queued"
    and h4: "0 < pending_count 4 (example_world Queued three_pending)"
    by simp_all
  have h5: "connect_transport (example_env VerifyOk) 7 (example_world Queued three_pending)
       = Inr example_transporter"
    by (simp add: connect_transport_example example_transporter_def)
  have pr: "pending_recipients 4 (example_world Queued three_pending) = three_pending"
    by (simp add: pending_recipients_def example_world_def three_pending_def example_recipient_def)
  have loop:
    "fst (loop_state (example_env VerifyOk) 4 7 (example_campaign Queued) example_transporter
           (example_world Queued three_pending) 3) = 2
     \<and> fst (snd (loop_state (example_env VerifyOk) 4 7 (example_campaign Queued)
                    example_transporter (example_world Queued three_pending) 3)) = 1"
    unfolding loop_state_def pr
    by (simp add: three_pending_def iteration_def sendToRecipient_def example_mail sendEmail_def
          example_env_def split: prod.splits)
  obtain s f w' where st:
    "loop_state (example_env VerifyOk) 4 7 (example_campaign Queued) example_transporter
       (example_world Queued three_pending) (pending_count 4 (example_world Queued three_pending))
     = (s, f, w')"
    by (cases "loop_state (example_env VerifyOk) 4 7 (example_campaign Queued) example_transporter
           (example_world Queued three_pending) (pending_count 4 (example_world Queued three_pending))")
  have "s = 2" "f = 1" using loop st by simp_all
  then show ?thesis
    using sendCampaign_loop_run [OF h1 h2 h3 h4 h5 st] by simp
qed

theorem dispatch_settles_every_pending_recipient_witness:
  "campaign_row 4 (example_world Queued three_pending) = Some (example_campaign Queued)
   \<and> c_user_id (example_campaign Queued) = 7 \<and> c_status (example_campaign Queued) = Queued
   \<and> distinct (map r_id (campaign_recipients (example_world Queued three_pending)))
   \<and> connect_transport (example_env VerifyOk) 7 (example_world Queued three_pending)
       = Inr example_transporter
   \<and> fst (sendCampaign (example_env VerifyOk) 4 7 (example_world Queued three_pending))
       = Inr (2, 1)
   \<and> pending_count 4 (snd (sendCampaign (example_env VerifyOk) 4 7
                              (example_world Queued three_pending))) = 0
   \<and> (\<exists>c'. campaign_row 4 (snd (sendCampaign (example_env VerifyOk) 4 7
                                     (example_world Queued three_pending))) = Some c'
           \<and> c_status c' = Completed \<and> sent_count c' = 2 \<and> failed_count c' = 1)
   \<and> status_count 4 Sent (snd (sendCampaign (example_env VerifyOk) 4 7
                                  (example_world Queued three_pending))) = 2
   \<and> status_count 4 SendFailed (snd (sendCampaign (example_env VerifyOk) 4 7
                                        (example_world Queued three_pending))) = 1
   \<and> length (email_logs (snd (sendCampaign (example_env VerifyOk) 4 7
                                 (example_world Queued three_pending)))) = 3"
proof -
  have h1: "campaign_row 4 (example_world Queued three_pending) = Some (example_campaign Queued)"
    and h2: "c_user_id (example_campaign Queued) = 7"
    and h3: "c_status (example_campaign Queued) = Queued"
    and h4: "distinct (map r_id (campaign_recipients (example_world Queued three_pending)))"
    by simp_all
  have h6: "email_logs (example_world Queued three_pending) = []"
    by (simp add: example_world_def)
  have h5: "connect_transport (example_env VerifyOk) 7 (example_world Queued three_pending)
       = Inr example_transporter"
    by (simp add: connect_transport_example example_transporter_def)
  let ?w' = "snd (sendCampaign (example_env VerifyOk) 4 7 (example_world Queued three_pending))"
  from dispatch_settles_every_pending_recipient [OF h1 h2 h3 h4 h5]
  obtain s f c' where r:
      "fst (sendCampaign (example_env VerifyOk) 4 7 (example_world Queued three_pending)) = Inr (s, f)"
      "pending_count 4 ?w' = 0"
      "campaign_row 4 ?w' = Some c'"
      "c_status c' = Completed"
      "sent_count c' = sent_count (example_campaign Queued) + int s"
      "failed_count c' = failed_count (example_campaign Queued) + int f"
      "status_count 4 Sent ?w' = status_count 4 Sent (example_world Queued three_pending) + s"
      "status_count 4 SendFailed ?w'
         = status_count 4 SendFailed (example_world Queued three_pending) + f"
      "length (email_logs ?w')
         = length (email_logs (example_world Queued three_pending))
           + pending_count 4 (example_world Queued three_pending)"
    by blast
  have sf: "s = 2" "f = 1"
    using r(1) example_run by simp_all
  have row: "\<exists>c'. campaign_row 4 ?w' = Some c'
           \<and> c_status c' = Completed \<and> sent_count c' = 2 \<and> failed_count c' = 1"
    using r(3-6) sf by simp
  have counts: "status_count 4 Sent ?w' = 2" "status_count 4 SendFailed ?w' = 1"
    "length (email_logs ?w') = 3"
    using r(7-9) sf h6 by simp_all
  from h1 h2 h3 h4 h5 example_run r(2) row counts show ?thesis by blast
qed

subsection \<open>Recipients the dispatcher does not select\<close>

lemma sendCampaign_recipients_cases:
  "campaign_recipients (snd (sendCampaign e cid uid w)) = campaign_recipients w
   \<or> (\<exists>cmp t s f w'.
         send_loop e cid uid cmp t (pending_recipients cid w)
           (0, 0, updateCampaignStatus cid Sending (Some (clock w)) None w) = (s, f, w')
         \<and> campaign_recipients (snd (sendCampaign e cid uid w)) = campaign_recipients w')"
proof (cases "filter (\<lambda>c. c_id c = cid \<and> c_user_id c = uid) (campaigns w)")
  case Nil
  then show ?thesis by (simp add: sendCampaign_def sendCampaign_try_def)
next
  case (Cons cmp rest)
  show ?thesis
  proof (cases "c_status cmp = Queued \<and> pending_recipients cid w \<noteq> []")
    case False
    then show ?thesis
      by (auto simp: sendCampaign_def sendCampaign_try_def Cons)
  next
    case True
    show ?thesis
    proof (cases "connect_transport e uid w")
      case (Inl msg)
      then show ?thesis using True by (simp add: sendCampaign_def sendCampaign_try_def Cons)
    next
      case (Inr t)
      obtain s f w' where loop:
        "send_loop e cid uid cmp t (pending_recipients cid w)
           (0, 0, updateCampaignStatus cid Sending (Some (clock w)) None w) = (s, f, w')"
        by (cases "send_loop e cid uid cmp t (pending_recipients cid w)
           (0, 0, updateCampaignStatus cid Sending (Some (clock w)) None w)")
      have "campaign_recipients (snd (sendCampaign e cid uid w)) = campaign_recipients w'"
        using True by (simp add: sendCampaign_def sendCampaign_try_def Cons Inr loop)
      with loop show ?thesis by blast
    qed
  qed
qed

text \<open>
  Claim C2, as the code has it. The two updates of a recipient row look at the id only,
  so on their own they overwrite a row that is already \<open>sent\<close> or \<open>failed\<close>. The
  dispatcher applies them to the rows its query returned as pending, and to no other:
  with ids unique in the table, a run of \<open>sendCampaign\<close>, whatever its outcome, leaves
  every row that was not pending, and every row of another campaign, exactly as it was
  (status, \<open>sent_at\<close> and \<open>error_message\<close> included).
\<close>

theorem dispatcher_touches_pending_rows_only:
  assumes "distinct (map r_id (campaign_recipients w))"
  shows "list_all2 (\<lambda>x x'. r_status x \<noteq> Pending \<or> r_campaign_id x \<noteq> cid \<longrightarrow> x' = x)
           (campaign_recipients w) (campaign_recipients (snd (sendCampaign e cid uid w)))"
proof -
  consider (same) "campaign_recipients (snd (sendCampaign e cid uid w)) = campaign_recipients w"
    | (loop) cmp t s f w' where
        "send_loop e cid uid cmp t (pending_recipients cid w)
           (0, 0, updateCampaignStatus cid Sending (Some (clock w)) None w) = (s, f, w')"
        "campaign_recipients (snd (sendCampaign e cid uid w)) = campaign_recipients w'"
    using sendCampaign_recipients_cases [of e cid uid w] by blast
  then show ?thesis
  proof cases
    case same
    then show ?thesis by (simp add: list_all2_same)
  next
    case loop
    have un: "list_all2 (\<lambda>x x'. r_id x' = r_id x
                 \<and> (r_id x \<notin> r_id ` set (pending_recipients cid w) \<longrightarrow> x' = x))
               (campaign_recipients w) (campaign_recipients w')"
      using send_loop_unchanged [OF loop(1)] by (simp add: unchanged_outside_def)
    have outside: "r_id x \<notin> r_id ` set (pending_recipients cid w)"
      if "x \<in> set (campaign_recipients w)" and "r_status x \<noteq> Pending \<or> r_campaign_id x \<noteq> cid"
      for x
    proof
      assume "r_id x \<in> r_id ` set (pending_recipients cid w)"
      then obtain y where y: "y \<in> set (pending_recipients cid w)" "r_id x = r_id y"
        by blast
      then have y': "y \<in> set (campaign_recipients w)" "r_campaign_id y = cid" "r_status y = Pending"
        by (simp_all add: set_pending_recipients)
      have "x = y"
        using assms that(1) y'(1) y(2) by (rule same_id_same_row)
      with y' that(2) show False by simp
    qed
    have "list_all2 (\<lambda>x x'. r_status x \<noteq> Pending \<or> r_campaign_id x \<noteq> cid \<longrightarrow> x' = x)
            (campaign_recipients w) (campaign_recipients w')"
      using un
    proof (rule list.rel_mono_strong)
      fix x x'
      assume "x \<in> set (campaign_recipients w)"
        and "x' \<in> set (campaign_recipients w')"
        and "r_id x' = r_id x \<and> (r_id x \<notin> r_id ` set (pending_recipients cid w) \<longrightarrow> x' = x)"
      then show "r_status x \<noteq> Pending \<or> r_campaign_id x \<noteq> cid \<longrightarrow> x' = x"
        using outside [of x] by blast
    qed
    then show ?thesis by (simp add: loop(2))
  qed
qed

theorem dispatcher_touches_pending_rows_only_witness:
  "distinct (map r_id (campaign_recipients (example_world Queued mixed_recipients)))
   \<and> list_all2 (\<lambda>x x'. r_status x \<noteq> Pending \<or> r_campaign_id x \<noteq> 4 \<longrightarrow> x' = x)
        mixed_recipients
        (campaign_recipients
           (snd (sendCampaign (example_env VerifyOk) 4 7 (example_world Queued mixed_recipients))))"
proof -
  have h1: "distinct (map r_id (campaign_recipients (example_world Queued mixed_recipients)))"
    and h2: "campaign_recipients (example_world Queued mixed_recipients) = mixed_recipients"
    by (simp_all add: example_world_def mixed_recipients_def example_recipient_def)
  from dispatcher_touches_pending_rows_only [OF h1, of 4 "example_env VerifyOk" 7] h1
  show ?thesis by (simp only: h2 simp_thms)
qed

text \<open>
  Claim C2 as stated fails: the update that marks a recipient sent, applied to a row
  already \<open>failed\<close>, makes it \<open>sent\<close> and stamps \<open>sent_at\<close>; the update that marks a
  recipient failed, applied to a row already \<open>sent\<close>, makes it \<open>failed\<close> and writes the
  error message.
\<close>

theorem mark_overwrites_terminal_row_counterexample:
  "campaign_recipients
     (mark_sent 12 (example_world Sending [example_recipient 12 ''bob@example.com'' SendFailed]))
     = [(example_recipient 12 ''bob@example.com'' SendFailed)
          \<lparr>r_status := Sent, sent_at := Some 5000\<rparr>]
   \<and> campaign_recipients
       (mark_failed 11 ''Recipient address rejected''
          (example_world Sending [example_recipient 11 ''ana@example.com'' Sent]))
     = [(example_recipient 11 ''ana@example.com'' Sent)
          \<lparr>r_status := SendFailed, error_message := Some ''Recipient address rejected''\<rparr>]
   \<and> r_status ((example_recipient 12 ''bob@example.com'' SendFailed)
                  \<lparr>r_status := Sent, sent_at := Some 5000\<rparr>)
       \<noteq> r_status (example_recipient 12 ''bob@example.com'' SendFailed)
   \<and> r_status ((example_recipient 11 ''ana@example.com'' Sent)
          \<lparr>r_status := SendFailed, error_message := Some ''Recipient address rejected''\<rparr>)
       \<noteq> r_status (example_recipient 11 ''ana@example.com'' Sent)"
  by (simp add: mark_sent_def mark_failed_def example_world_def example_recipient_def)

end
